theory Spec2Isabelle
  imports Main "HOL-Library.Word" "HOL-Library.Multiset"
begin

chapter \<open>The embedding\<close>

section \<open>Enumerations shared by the optimizer rule and the operators\<close>

text \<open>
  \<open>PredicateCondition\<close> is declared in the repository's \<open>types.hpp\<close>, which is not
  among the sources; the constructors are the ones the sources name.
\<close>

datatype PredicateCondition =
    Equals | NotEquals | LessThan | LessThanEquals | GreaterThan | GreaterThanEquals
  | BetweenInclusive | BetweenLowerExclusive | BetweenUpperExclusive | BetweenExclusive
  | Like | NotLike | IsNull | IsNotNull

datatype LogicalOperator = And | Or

datatype error =
    OutOfRange       \<comment> \<open>an index outside a vector, \<open>front()\<close>/\<open>back()\<close> of an empty vector\<close>
  | TypeMismatch     \<comment> \<open>\<open>Fail("Cannot join String with non-String column")\<close>\<close>
  | SchemaMismatch   \<comment> \<open>a row whose length differs from the column count\<close>
  | InvalidArgument  \<comment> \<open>a failed \<open>Assert\<close>\<close>
  | CyclicPlan       \<comment> \<open>a node linked below itself\<close>

section \<open>The between composition rule\<close>

subsection \<open>Expressions and plans\<close>

text \<open>
  Modelled from the spec: the expression classes (\<open>expression/*.hpp\<close>) are not among the
  sources. The spec's plan API gives the variants: binary comparison \<open>(op, lhs, rhs)\<close>,
  logical \<open>(AND|OR, children[])\<close>, between \<open>(col, lo, hi, inclusivity)\<close>, column reference
  and literal value. \<open>'c\<close> is the type of column references, \<open>'v\<close> the type of the
  literal values of one column type, compared by its linear order.
\<close>

datatype ('c, 'v) expression =
    LQPColumnExpression 'c
  | ValueExpression 'v
  | BinaryPredicateExpression PredicateCondition "('c, 'v) expression" "('c, 'v) expression"
  | LogicalExpression LogicalOperator "('c, 'v) expression list"
  | BetweenExpression "('c, 'v) expression" "('c, 'v) expression" "('c, 'v) expression"
      PredicateCondition

text \<open>
  Plans are modelled as trees: a predicate node with its predicate and its left input
  (\<open>None\<close> is \<open>nullptr\<close>), and any other node with its two inputs. Every node of a tree
  has at most one consumer and a predicate node has no right input, so the two
  conditions that end a predicate chain early in \<open>apply_to\<close> (more than one output, a
  right input) do not arise in this model.
\<close>

datatype ('c, 'v) lqp =
    PredicateNode "('c, 'v) expression" "('c, 'v) lqp option"
  | OtherNode string "('c, 'v) lqp option" "('c, 'v) lqp option"

text \<open>
  \<open>std::dynamic_pointer_cast\<close> to a column expression and to a value expression: the
  payload when the cast succeeds, \<open>None\<close> for the null pointer otherwise.
\<close>

fun as_column_expression :: "('c, 'v) expression \<Rightarrow> 'c option" where
  "as_column_expression (LQPColumnExpression c) = Some c"
| "as_column_expression _ = None"

fun as_value_expression :: "('c, 'v) expression \<Rightarrow> 'v option" where
  "as_value_expression (ValueExpression v) = Some v"
| "as_value_expression _ = None"

text \<open>
  Modelled from the spec: \<open>flatten_logical_expressions\<close> (\<open>expression_utils.hpp\<close>) is
  not among the sources; the spec has a logical AND "flattened greedily": nested
  expressions of the same operator are replaced by their children, left to right.
\<close>

fun flatten_logical_expressions ::
  "('c, 'v) expression \<Rightarrow> LogicalOperator \<Rightarrow> ('c, 'v) expression list" where
  "flatten_logical_expressions (LogicalExpression op' children) op =
     (if op' = op then concat (map (\<lambda>c. flatten_logical_expressions c op) children)
      else [LogicalExpression op' children])"
| "flatten_logical_expressions e op = [e]"

subsection \<open>Column boundaries\<close>

datatype ColumnBoundaryType =
    None'
  | LowerBoundaryInclusive
  | LowerBoundaryExclusive
  | UpperBoundaryInclusive
  | UpperBoundaryExclusive

text \<open>
  The struct \<open>ColumnBoundary\<close>; its two pointers may be null (\<open>None\<close>), and are not
  when the type is not \<open>None'\<close>.
\<close>

record ('c, 'v) ColumnBoundary =
  column_expression :: "'c option"
  value_expression :: "'v option"
  type' :: ColumnBoundaryType

definition get_boundary ::
  "PredicateCondition \<Rightarrow> ('c, 'v) expression \<Rightarrow> ('c, 'v) expression \<Rightarrow> ('c, 'v) ColumnBoundary"
where
  "get_boundary predicate_condition left_operand right_operand =
    (if as_column_expression left_operand \<noteq> None \<and> as_value_expression right_operand \<noteq> None
     then
       \<lparr>column_expression = as_column_expression left_operand,
        value_expression = as_value_expression right_operand,
        type' = (case predicate_condition of
                   LessThanEquals \<Rightarrow> UpperBoundaryInclusive
                 | GreaterThanEquals \<Rightarrow> LowerBoundaryInclusive
                 | LessThan \<Rightarrow> UpperBoundaryExclusive
                 | GreaterThan \<Rightarrow> LowerBoundaryExclusive
                 | _ \<Rightarrow> None')\<rparr>
     else
       \<lparr>column_expression = as_column_expression right_operand,
        value_expression = as_value_expression left_operand,
        type' = (if as_value_expression left_operand \<noteq> None
                    \<and> as_column_expression right_operand \<noteq> None
                 then (case predicate_condition of
                         GreaterThanEquals \<Rightarrow> UpperBoundaryInclusive
                       | LessThanEquals \<Rightarrow> LowerBoundaryInclusive
                       | GreaterThan \<Rightarrow> UpperBoundaryExclusive
                       | LessThan \<Rightarrow> LowerBoundaryExclusive
                       | _ \<Rightarrow> None')
                 else None')\<rparr>)"

definition get_between_predicate_condition :: "bool \<Rightarrow> bool \<Rightarrow> PredicateCondition" where
  "get_between_predicate_condition left_inclusive right_inclusive =
    (if left_inclusive \<and> right_inclusive then BetweenInclusive
     else if left_inclusive \<and> \<not> right_inclusive then BetweenUpperExclusive
     else if \<not> left_inclusive \<and> right_inclusive then BetweenLowerExclusive
     else BetweenExclusive)"

subsection \<open>The replacement step\<close>

text \<open>
  The entries of the vectors \<open>predicate_nodes\<close> and \<open>between_nodes\<close> are pointers to
  nodes: \<open>Original i\<close> is the pointer to the \<open>i\<close>-th node of the chain handed to
  \<open>_replace_predicates\<close>, \<open>Created e\<close> a node made by \<open>PredicateNode::make\<close> with the
  predicate \<open>e\<close>.
\<close>

datatype ('c, 'v) node_ref = Original nat | Created "('c, 'v) expression"

text \<open>
  The map \<open>column_boundaries\<close> is a \<open>std::unordered_map\<close>, whose iteration order the
  language leaves open; the model iterates in the order in which the columns were
  first inserted.
\<close>

type_synonym ('c, 'v) column_boundaries = "('c \<times> ('c, 'v) ColumnBoundary list) list"

definition push_boundary ::
  "'c \<Rightarrow> ('c, 'v) ColumnBoundary \<Rightarrow> ('c, 'v) column_boundaries \<Rightarrow> ('c, 'v) column_boundaries"
where
  "push_boundary column_reference boundary column_boundaries =
    (if map_of column_boundaries column_reference = None
     then column_boundaries @ [(column_reference, [boundary])]
     else map (\<lambda>(c, bs). if c = column_reference then (c, bs @ [boundary]) else (c, bs))
            column_boundaries)"

text \<open>
  The binary predicate expressions of one predicate (lines 122 to 142), and whether the
  node itself is kept (line 140).
\<close>

fun is_binary_predicate_expression :: "('c, 'v) expression \<Rightarrow> bool" where
  "is_binary_predicate_expression (BinaryPredicateExpression _ _ _) = True"
| "is_binary_predicate_expression _ = False"

fun predicate_expressions :: "('c, 'v) expression \<Rightarrow> ('c, 'v) expression list \<times> bool" where
  "predicate_expressions (BinaryPredicateExpression pc l r) =
     ([BinaryPredicateExpression pc l r], False)"
| "predicate_expressions (LogicalExpression And children) =
     (filter is_binary_predicate_expression
        (flatten_logical_expressions (LogicalExpression And children) And), False)"
| "predicate_expressions _ = ([], True)"

text \<open>The state of the first loop: the two containers it fills.\<close>

record ('c, 'v) collected =
  predicate_nodes :: "('c, 'v) node_ref list"
  column_boundaries :: "('c, 'v) column_boundaries"

text \<open>Lines 144 to 154, for one binary predicate expression of the node \<open>predicate\<close>.\<close>

fun collect_expression ::
  "('c, 'v) node_ref \<Rightarrow> ('c, 'v) collected \<Rightarrow> ('c, 'v) expression \<Rightarrow> ('c, 'v) collected" where
  "collect_expression predicate st (BinaryPredicateExpression pc l r) =
     (let boundary = get_boundary pc l r in
      case (type' boundary, column_expression boundary) of
        (None', _) \<Rightarrow> st\<lparr>predicate_nodes := predicate_nodes st @ [predicate]\<rparr>
      | (_, Some column_reference) \<Rightarrow>
          st\<lparr>column_boundaries := push_boundary column_reference boundary (column_boundaries st)\<rparr>
      | (_, None) \<Rightarrow> st)"
| "collect_expression predicate st _ = st"

text \<open>The body of the first loop (lines 120 to 157) for the node at index \<open>i\<close>.\<close>

definition collect_predicate ::
  "('c, 'v) collected \<Rightarrow> nat \<times> ('c, 'v) expression \<Rightarrow> ('c, 'v) collected" where
  "collect_predicate st p =
    (case p of (i, predicate) \<Rightarrow>
      (case predicate_expressions predicate of (expressions, kept) \<Rightarrow>
        foldl (collect_expression (Original i))
          (if kept then st\<lparr>predicate_nodes := predicate_nodes st @ [Original i]\<rparr> else st)
          expressions))"

definition collect_predicates :: "('c, 'v) expression list \<Rightarrow> ('c, 'v) collected" where
  "collect_predicates predicates =
    foldl collect_predicate \<lparr>predicate_nodes = [], column_boundaries = []\<rparr>
      (enumerate 0 predicates)"

text \<open>
  The four locals of lines 159 to 162. The two flags are not reset between columns
  (lines 229 and 230 reset the pointers only).
\<close>

record 'v bounds =
  lower_bound_value_expression :: "'v option"
  upper_bound_value_expression :: "'v option"
  lower_inclusive :: bool
  upper_inclusive :: bool

text \<open>
  The test \<open>!best || best->value REL boundary.value_expression->value\<close>. The candidate's
  pointer is not null, because its boundary type is not \<open>None'\<close>.
\<close>

definition replaces :: "('v \<Rightarrow> 'v \<Rightarrow> bool) \<Rightarrow> 'v option \<Rightarrow> 'v option \<Rightarrow> bool" where
  "replaces rel best candidate =
    (case best of
       None \<Rightarrow> True
     | Some b \<Rightarrow> (case candidate of Some n \<Rightarrow> rel b n | None \<Rightarrow> False))"

text \<open>The switch of lines 166 to 195.\<close>

definition update_bounds ::
  "('v::linorder) bounds \<Rightarrow> ('c, 'v) ColumnBoundary \<Rightarrow> 'v bounds" where
  "update_bounds st boundary =
    (case type' boundary of
       UpperBoundaryInclusive \<Rightarrow>
         (if replaces (>) (upper_bound_value_expression st) (value_expression boundary)
          then st\<lparr>upper_bound_value_expression := value_expression boundary,
                  upper_inclusive := True\<rparr>
          else st)
     | LowerBoundaryInclusive \<Rightarrow>
         (if replaces (<) (lower_bound_value_expression st) (value_expression boundary)
          then st\<lparr>lower_bound_value_expression := value_expression boundary,
                  lower_inclusive := True\<rparr>
          else st)
     | UpperBoundaryExclusive \<Rightarrow>
         (if replaces (\<ge>) (upper_bound_value_expression st) (value_expression boundary)
          then st\<lparr>upper_bound_value_expression := value_expression boundary,
                  upper_inclusive := False\<rparr>
          else st)
     | LowerBoundaryExclusive \<Rightarrow>
         (if replaces (\<le>) (lower_bound_value_expression st) (value_expression boundary)
          then st\<lparr>lower_bound_value_expression := value_expression boundary,
                  lower_inclusive := False\<rparr>
          else st)
     | None' \<Rightarrow> st)"

text \<open>The inner loop of lines 165 to 196 over the boundaries of one column.\<close>

definition reduce_boundaries ::
  "('v::linorder) bounds \<Rightarrow> ('c, 'v) ColumnBoundary list \<Rightarrow> 'v bounds" where
  "reduce_boundaries st boundaries = foldl update_bounds st boundaries"

text \<open>Lines 207 to 226: the predicate made again from a boundary.\<close>

definition boundary_predicate_condition :: "ColumnBoundaryType \<Rightarrow> PredicateCondition option" where
  "boundary_predicate_condition t =
    (case t of
       LowerBoundaryInclusive \<Rightarrow> Some GreaterThanEquals
     | LowerBoundaryExclusive \<Rightarrow> Some GreaterThan
     | UpperBoundaryInclusive \<Rightarrow> Some LessThanEquals
     | UpperBoundaryExclusive \<Rightarrow> Some LessThan
     | None' \<Rightarrow> None)"

definition boundary_node :: "('c, 'v) ColumnBoundary \<Rightarrow> ('c, 'v) node_ref list" where
  "boundary_node boundary =
    (case (boundary_predicate_condition (type' boundary), column_expression boundary,
           value_expression boundary) of
       (Some predicate_condition, Some c, Some v) \<Rightarrow>
         [Created (BinaryPredicateExpression predicate_condition
                     (LQPColumnExpression c) (ValueExpression v))]
     | _ \<Rightarrow> [])"

text \<open>The state of the second loop (lines 164 to 231).\<close>

record ('c, 'v) emitted =
  best :: "'v bounds"
  between_nodes :: "('c, 'v) node_ref list"
  emitted_nodes :: "('c, 'v) node_ref list"

text \<open>
  Lines 198 to 202: the between node of a column; its column expression is the one of
  the first boundary of the column (\<open>boundaries.second[0]\<close>), which exists and whose
  pointer is not null for every entry of the map.
\<close>

definition between_node ::
  "('c, 'v) ColumnBoundary list \<Rightarrow> 'v \<Rightarrow> 'v \<Rightarrow> bool \<Rightarrow> bool \<Rightarrow> ('c, 'v) node_ref list" where
  "between_node boundaries lower upper left_inclusive right_inclusive =
    (case boundaries of
       [] \<Rightarrow> []
     | b0 # _ \<Rightarrow>
        (case column_expression b0 of
           None \<Rightarrow> []
         | Some c \<Rightarrow>
            [Created (BetweenExpression (LQPColumnExpression c)
               (ValueExpression lower) (ValueExpression upper)
               (get_between_predicate_condition left_inclusive right_inclusive))]))"

definition emit_column ::
  "('c, 'v::linorder) emitted \<Rightarrow> 'c \<times> ('c, 'v) ColumnBoundary list \<Rightarrow> ('c, 'v) emitted" where
  "emit_column st boundaries =
    (let b = reduce_boundaries (best st) (snd boundaries);
         cleared = b\<lparr>lower_bound_value_expression := None, upper_bound_value_expression := None\<rparr>
     in case (lower_bound_value_expression b, upper_bound_value_expression b) of
          (Some lower, Some upper) \<Rightarrow>
            st\<lparr>best := cleared,
               between_nodes := between_nodes st @
                 between_node (snd boundaries) lower upper (lower_inclusive b) (upper_inclusive b)\<rparr>
        | _ \<Rightarrow>
            st\<lparr>best := cleared,
               emitted_nodes := emitted_nodes st @ concat (map boundary_node (snd boundaries))\<rparr>)"

text \<open>
  Lines 109 to 234: the vector \<open>predicate_nodes\<close> after the between nodes were appended
  to it. The re-linking of lines 238 to 248 reads its \<open>back()\<close> and \<open>front()\<close>, which an
  empty vector does not have.
\<close>

definition rebuilt_nodes :: "('c, 'v::linorder) expression list \<Rightarrow> ('c, 'v) node_ref list" where
  "rebuilt_nodes predicates =
    (let collected = collect_predicates predicates;
         e = foldl emit_column
               \<lparr>best = \<lparr>lower_bound_value_expression = None, upper_bound_value_expression = None,
                         lower_inclusive = False, upper_inclusive = False\<rparr>,
                between_nodes = [], emitted_nodes = predicate_nodes collected\<rparr>
               (column_boundaries collected)
     in emitted_nodes e @ between_nodes e)"

fun is_original :: "('c, 'v) node_ref \<Rightarrow> bool" where
  "is_original (Original _) = True"
| "is_original (Created _) = False"

definition replace_predicates ::
  "('c, 'v::linorder) expression list \<Rightarrow> error + ('c, 'v) node_ref list" where
  "replace_predicates predicates =
    (let nodes = rebuilt_nodes predicates in
     if nodes = [] then Inl OutOfRange
     else if \<not> distinct (filter is_original nodes) then Inl CyclicPlan
     else Inr nodes)"

subsection \<open>The rule\<close>

fun node_predicate :: "('c, 'v) expression list \<Rightarrow> ('c, 'v) node_ref \<Rightarrow> ('c, 'v) expression" where
  "node_predicate predicates (Original i) = predicates ! i"
| "node_predicate predicates (Created e) = e"

text \<open>
  Lines 238 to 243: the nodes of the vector linked into a chain above \<open>input\<close>, the first
  node on top.
\<close>

definition link_nodes ::
  "('c, 'v) expression list \<Rightarrow> ('c, 'v) node_ref list \<Rightarrow> ('c, 'v) lqp option
    \<Rightarrow> ('c, 'v) lqp option" where
  "link_nodes predicates nodes input =
    foldr (\<lambda>n below. Some (PredicateNode (node_predicate predicates n) below)) nodes input"

text \<open>
  Lines 255 to 269: the predicates of the adjacent predicate nodes from \<open>node\<close> down, and
  the left input of the last of them.
\<close>

fun gather_predicates :: "('c, 'v) lqp \<Rightarrow> ('c, 'v) expression list \<times> ('c, 'v) lqp option" where
  "gather_predicates (PredicateNode e None) = ([e], None)"
| "gather_predicates (PredicateNode e (Some n)) =
     (case gather_predicates n of (es, input) \<Rightarrow> (e # es, input))"
| "gather_predicates (OtherNode name l r) = ([], Some (OtherNode name l r))"

text \<open>
  Modelled from the spec: \<open>_apply_to_inputs\<close> (\<open>abstract_rule.cpp\<close>) is not among the
  sources; the rule recurses into an input that is not null.
\<close>

definition apply_to_input ::
  "(('c, 'v) lqp \<Rightarrow> (error + ('c, 'v) lqp) option) \<Rightarrow> ('c, 'v) lqp option
    \<Rightarrow> (error + ('c, 'v) lqp option) option" where
  "apply_to_input rule input =
    (case input of
       None \<Rightarrow> Some (Inr None)
     | Some n \<Rightarrow>
        (case rule n of
           None \<Rightarrow> None
         | Some (Inl err) \<Rightarrow> Some (Inl err)
         | Some (Inr n') \<Rightarrow> Some (Inr (Some n'))))"

text \<open>
  \<open>apply_to\<close>, with fuel for its recursion (\<open>None\<close>: the fuel ran out). The result is the
  plan that the consumers of \<open>node\<close> see as their input afterwards.

  After \<open>_replace_predicates\<close>, line 276 recurses into the inputs of the last node of the
  original chain. Modelled from the spec: \<open>lqp_remove_node\<close> (\<open>lqp_utils.hpp\<close>) is not
  among the sources; the spec's \<open>detach()\<close> leaves the removed node without input. So
  the recursion goes on below that node where the replacement step has linked it into
  the new chain again, and ends at once where it has not.
\<close>

fun apply_to :: "nat \<Rightarrow> ('c, 'v::linorder) lqp \<Rightarrow> (error + ('c, 'v) lqp) option" where
  "apply_to 0 node = None"
| "apply_to (Suc fuel) (OtherNode name left_input right_input) =
    (case apply_to_input (apply_to fuel) left_input of
       None \<Rightarrow> None
     | Some (Inl err) \<Rightarrow> Some (Inl err)
     | Some (Inr l) \<Rightarrow>
        (case apply_to_input (apply_to fuel) right_input of
           None \<Rightarrow> None
         | Some (Inl err) \<Rightarrow> Some (Inl err)
         | Some (Inr r) \<Rightarrow> Some (Inr (OtherNode name l r))))"
| "apply_to (Suc fuel) (PredicateNode e i) =
    (case gather_predicates (PredicateNode e i) of (predicates, input) \<Rightarrow>
      (case replace_predicates predicates of
         Inl err \<Rightarrow> Some (Inl err)
       | Inr nodes \<Rightarrow>
          (let back = Original (length predicates - 1);
               upper = takeWhile (\<lambda>n. n \<noteq> back) nodes;
               lower = dropWhile (\<lambda>n. n \<noteq> back) nodes
           in case lower of
                [] \<Rightarrow>
                  (case link_nodes predicates nodes input of
                     None \<Rightarrow> Some (Inl OutOfRange)
                   | Some chain \<Rightarrow> Some (Inr chain))
              | b # rest \<Rightarrow>
                  (case apply_to_input (apply_to fuel) (link_nodes predicates rest input) of
                     None \<Rightarrow> None
                   | Some (Inl err) \<Rightarrow> Some (Inl err)
                   | Some (Inr below) \<Rightarrow>
                       (case link_nodes predicates (upper @ [b]) below of
                          None \<Rightarrow> Some (Inl OutOfRange)
                        | Some chain \<Rightarrow> Some (Inr chain))))))"

subsection \<open>Executing a plan\<close>

text \<open>
  Modelled from the spec: the operators that execute predicate nodes are not among the
  sources. A row gives every column a value or NULL (\<open>None\<close>); a comparison with NULL is
  unknown (\<open>None\<close>), AND and OR are the three-valued ones, and a predicate node keeps the
  rows for which its predicate is true. Predicates of other forms are unknown to this
  model. The result of any other node is given by \<open>run\<close> from the node's name and the
  results of its inputs.
\<close>

fun operand_value :: "('c \<Rightarrow> 'v option) \<Rightarrow> ('c, 'v) expression \<Rightarrow> 'v option" where
  "operand_value row (LQPColumnExpression c) = row c"
| "operand_value row (ValueExpression v) = Some v"
| "operand_value row _ = None"

fun compare_values :: "PredicateCondition \<Rightarrow> 'v::linorder \<Rightarrow> 'v \<Rightarrow> bool option" where
  "compare_values Equals a b = Some (a = b)"
| "compare_values NotEquals a b = Some (a \<noteq> b)"
| "compare_values LessThan a b = Some (a < b)"
| "compare_values LessThanEquals a b = Some (a \<le> b)"
| "compare_values GreaterThan a b = Some (a > b)"
| "compare_values GreaterThanEquals a b = Some (a \<ge> b)"
| "compare_values _ a b = None"

fun between_values :: "PredicateCondition \<Rightarrow> 'v::linorder \<Rightarrow> 'v \<Rightarrow> 'v \<Rightarrow> bool option" where
  "between_values BetweenInclusive x lo hi = Some (lo \<le> x \<and> x \<le> hi)"
| "between_values BetweenLowerExclusive x lo hi = Some (lo < x \<and> x \<le> hi)"
| "between_values BetweenUpperExclusive x lo hi = Some (lo \<le> x \<and> x < hi)"
| "between_values BetweenExclusive x lo hi = Some (lo < x \<and> x < hi)"
| "between_values _ x lo hi = None"

definition and3 :: "bool option list \<Rightarrow> bool option" where
  "and3 bs = (if Some False \<in> set bs then Some False
              else if None \<in> set bs then None else Some True)"

definition or3 :: "bool option list \<Rightarrow> bool option" where
  "or3 bs = (if Some True \<in> set bs then Some True
             else if None \<in> set bs then None else Some False)"

fun holds :: "('c \<Rightarrow> 'v option) \<Rightarrow> ('c, 'v::linorder) expression \<Rightarrow> bool option" where
  "holds row (BinaryPredicateExpression pc l r) =
     (case (operand_value row l, operand_value row r) of
        (Some a, Some b) \<Rightarrow> compare_values pc a b
      | _ \<Rightarrow> None)"
| "holds row (BetweenExpression x lo hi pc) =
     (case (operand_value row x, operand_value row lo, operand_value row hi) of
        (Some a, Some l, Some h) \<Rightarrow> between_values pc a l h
      | _ \<Rightarrow> None)"
| "holds row (LogicalExpression And children) = and3 (map (holds row) children)"
| "holds row (LogicalExpression Or children) = or3 (map (holds row) children)"
| "holds row _ = None"

fun execute ::
  "(string \<Rightarrow> 'r list option \<Rightarrow> 'r list option \<Rightarrow> 'r list) \<Rightarrow> ('r \<Rightarrow> ('c \<Rightarrow> 'v option))
    \<Rightarrow> ('c, 'v::linorder) lqp \<Rightarrow> 'r list" where
  "execute run columns (PredicateNode e None) = []"
| "execute run columns (PredicateNode e (Some input)) =
     filter (\<lambda>row. holds (columns row) e = Some True) (execute run columns input)"
| "execute run columns (OtherNode name l r) =
     run name (map_option (execute run columns) l) (map_option (execute run columns) r)"


section \<open>Storage\<close>

text \<open>
  Modelled from the spec: the declarations of the handles, of the segments and of \<open>Chunk\<close>
  (\<open>types.hpp\<close>, \<open>storage/*.hpp\<close>) are not among the sources. \<open>ChunkID\<close>, \<open>ColumnID\<close> and
  \<open>ChunkOffset\<close> are non-negative integers, a \<open>RowID\<close> is a pair of a chunk and an offset
  or the distinguished \<open>NULL_ROW_ID\<close>, a \<open>ValueID\<close> is an unsigned 32-bit dictionary code
  with the distinguished \<open>INVALID_VALUE_ID\<close>.
\<close>

type_synonym ChunkID = nat
type_synonym ColumnID = nat
type_synonym ChunkOffset = nat
type_synonym ValueID = "32 word"

datatype RowID = RowID ChunkID ChunkOffset | NULL_ROW_ID

type_synonym PosList = "RowID list"

definition INVALID_VALUE_ID :: ValueID where
  "INVALID_VALUE_ID = - 1"

datatype DataType = Int' | Long | Float | Double | String

datatype TableType = Data | References

datatype UseMvcc = Yes | No

record ColumnDefinition =
  name :: string
  data_type :: DataType
  nullable :: bool

text \<open>
  A value segment has its data type, whether it is nullable, and its rows (\<open>None\<close> where
  the null bitmap marks the row); a dictionary segment has its data type, its dictionary
  and its attribute vector of codes, the code \<open>|dictionary|\<close> for NULL; a reference
  segment has the table and the column it points into and its position list. A chunk
  has its segments and, if the table uses MVCC, the number of MVCC row slots. A table
  has its column definitions, its type, its maximal chunk size and its chunks.
  \<open>'v\<close> is the type of the non-NULL values of all columns.
\<close>

datatype 'v segment =
    ValueSegment DataType bool "'v option list"
  | DictionarySegment DataType "'v list" "ValueID list"
  | ReferenceSegment (referenced_table: "'v table") (referenced_column_id: ColumnID)
      (pos_list: PosList)
and 'v chunk =
    Chunk (segments: "'v segment list") (mvcc_columns: "nat option")
and 'v table =
    Table (column_definitions: "ColumnDefinition list") (table_type: TableType)
      (max_chunk_size: "32 word") (use_mvcc: UseMvcc) (chunks: "'v chunk list")

fun segment_size :: "'v segment \<Rightarrow> nat" where
  "segment_size (ValueSegment dt nl vs) = length vs"
| "segment_size (DictionarySegment dt dictionary attribute_vector) = length attribute_vector"
| "segment_size (ReferenceSegment t c pl) = length pl"

text \<open>\<open>Chunk::size\<close>: the size of the first segment, 0 for a chunk without segments.\<close>

definition chunk_size :: "'v chunk \<Rightarrow> nat" where
  "chunk_size c = (case segments c of [] \<Rightarrow> 0 | s # _ \<Rightarrow> segment_size s)"

subsection \<open>Segment iteration\<close>

text \<open>
  Modelled from the spec: the iterables (\<open>storage/segment_iterables\<close>,
  \<open>segment_iterate.hpp\<close>) are not among the sources. A segment yields its positions in
  the order of the chunk offsets: a value, whether it is NULL, and the chunk offset. A
  position filter restricts the iteration to its offsets, in its order, and the
  positions keep the original offsets. An offset outside the segment is an error here.
\<close>

record 'a SegmentPosition =
  position_value :: 'a
  is_null :: bool
  chunk_offset :: ChunkOffset

definition with_iterators ::
  "'a list \<Rightarrow> ('a \<Rightarrow> bool) \<Rightarrow> ChunkOffset list option \<Rightarrow> error + 'a SegmentPosition list" where
  "with_iterators vs null position_filter =
    (let offsets = (case position_filter of None \<Rightarrow> [0..<length vs] | Some f \<Rightarrow> f)
     in if list_all (\<lambda>offset. offset < length vs) offsets
        then Inr (map (\<lambda>offset. \<lparr>position_value = vs ! offset, is_null = null (vs ! offset),
                                 chunk_offset = offset\<rparr>) offsets)
        else Inl OutOfRange)"

fun sequence :: "('e + 'a) list \<Rightarrow> 'e + 'a list" where
  "sequence [] = Inr []"
| "sequence (x # xs) =
     (case x of
        Inl e \<Rightarrow> Inl e
      | Inr a \<Rightarrow> (case sequence xs of Inl e \<Rightarrow> Inl e | Inr as \<Rightarrow> Inr (a # as)))"

text \<open>
  The row a reference segment's position stands for: NULL for \<open>NULL_ROW_ID\<close>, else the
  row of the referenced column at that chunk and offset.
\<close>

definition dereference ::
  "(error + 'v option list) list list \<Rightarrow> ColumnID \<Rightarrow> RowID \<Rightarrow> error + 'v option" where
  "dereference t column_id row =
    (case row of
       NULL_ROW_ID \<Rightarrow> Inr None
     | RowID c offset \<Rightarrow>
        if c < length t \<and> column_id < length (t ! c)
        then (case t ! c ! column_id of
                Inl e \<Rightarrow> Inl e
              | Inr vs \<Rightarrow> if offset < length vs then Inr (vs ! offset) else Inl OutOfRange)
        else Inl OutOfRange)"

text \<open>
  The typed rows of a segment, in the order of the chunk offsets: the value, or \<open>None\<close>
  for NULL.
\<close>

primrec typed_rows :: "'v segment \<Rightarrow> error + 'v option list"
  and chunk_rows :: "'v chunk \<Rightarrow> (error + 'v option list) list"
  and table_rows :: "'v table \<Rightarrow> (error + 'v option list) list list" where
  "typed_rows (ValueSegment dt nl vs) = Inr vs"
| "typed_rows (DictionarySegment dt dictionary attribute_vector) =
     sequence (map (\<lambda>code. if code = of_nat (length dictionary) then Inr None
                            else if unat code < length dictionary
                            then Inr (Some (dictionary ! unat code))
                            else Inl OutOfRange) attribute_vector)"
| "typed_rows (ReferenceSegment t c pl) = sequence (map (dereference (table_rows t) c) pl)"
| "chunk_rows (Chunk segs m) = map typed_rows segs"
| "table_rows (Table defs ty mcs mv chs) = map chunk_rows chs"

text \<open>\<open>segment_with_iterators_filtered\<close>: the typed positions of a segment.\<close>

definition segment_with_iterators_filtered ::
  "'v segment \<Rightarrow> ChunkOffset list option \<Rightarrow> error + 'v option SegmentPosition list" where
  "segment_with_iterators_filtered segment position_filter =
    (case typed_rows segment of
       Inl e \<Rightarrow> Inl e
     | Inr vs \<Rightarrow> with_iterators vs (\<lambda>v. v = None) position_filter)"

text \<open>
  \<open>create_iterable_from_attribute_vector\<close>: the positions of the attribute vector of a
  dictionary segment; the value of a position is its code, and the position is NULL
  when the code is the number of dictionary entries.
\<close>

definition attribute_vector_with_iterators ::
  "'v list \<Rightarrow> ValueID list \<Rightarrow> ChunkOffset list option \<Rightarrow> error + ValueID SegmentPosition list"
where
  "attribute_vector_with_iterators dictionary attribute_vector position_filter =
    with_iterators attribute_vector (\<lambda>code. code = of_nat (length dictionary)) position_filter"

section \<open>The column-between table scan\<close>

text \<open>
  Modelled from the spec: \<open>lower_bound\<close> and \<open>upper_bound\<close> of a dictionary segment
  (\<open>dictionary_segment.cpp\<close>) are not among the sources. They give the code of the first
  dictionary entry that is not less than, respectively greater than, the value, and
  \<open>INVALID_VALUE_ID\<close> for NULL. Lines 87 to 90 and 105 of the scan expect
  \<open>INVALID_VALUE_ID\<close> for a bound that is not NULL as well: it is the result when no
  dictionary entry qualifies.
\<close>

definition bound_value_id :: "'v list \<Rightarrow> nat \<Rightarrow> ValueID" where
  "bound_value_id dictionary i = (if i < length dictionary then of_nat i else INVALID_VALUE_ID)"

definition lower_bound :: "('v::linorder) list \<Rightarrow> 'v option \<Rightarrow> ValueID" where
  "lower_bound dictionary v =
    (case v of
       None \<Rightarrow> INVALID_VALUE_ID
     | Some x \<Rightarrow> bound_value_id dictionary (length (takeWhile (\<lambda>d. d < x) dictionary)))"

definition upper_bound :: "('v::linorder) list \<Rightarrow> 'v option \<Rightarrow> ValueID" where
  "upper_bound dictionary v =
    (case v of
       None \<Rightarrow> INVALID_VALUE_ID
     | Some x \<Rightarrow> bound_value_id dictionary (length (takeWhile (\<lambda>d. d \<le> x) dictionary)))"

text \<open>
  Modelled from the spec: the helpers of \<open>types.hpp\<close> and \<open>type_comparison.hpp\<close> are not
  among the sources. The lower bound is inclusive for \<open>BetweenInclusive\<close> and
  \<open>BetweenUpperExclusive\<close>, the upper bound for \<open>BetweenInclusive\<close> and
  \<open>BetweenLowerExclusive\<close>; \<open>with_comparator_between\<close> gives the comparator of a between
  condition and fails for any other condition.
\<close>

definition is_between_predicate_condition_lower_inclusive :: "PredicateCondition \<Rightarrow> bool" where
  "is_between_predicate_condition_lower_inclusive pc =
    (pc = BetweenInclusive \<or> pc = BetweenUpperExclusive)"

definition is_between_predicate_condition_upper_inclusive :: "PredicateCondition \<Rightarrow> bool" where
  "is_between_predicate_condition_upper_inclusive pc =
    (pc = BetweenInclusive \<or> pc = BetweenLowerExclusive)"

definition is_between_predicate_condition :: "PredicateCondition \<Rightarrow> bool" where
  "is_between_predicate_condition pc =
    (pc = BetweenInclusive \<or> pc = BetweenLowerExclusive \<or> pc = BetweenUpperExclusive
     \<or> pc = BetweenExclusive)"

fun with_comparator_between ::
  "PredicateCondition \<Rightarrow> (('v::linorder) \<Rightarrow> 'v \<Rightarrow> 'v \<Rightarrow> bool) option" where
  "with_comparator_between BetweenInclusive = Some (\<lambda>x lo hi. lo \<le> x \<and> x \<le> hi)"
| "with_comparator_between BetweenLowerExclusive = Some (\<lambda>x lo hi. lo < x \<and> x \<le> hi)"
| "with_comparator_between BetweenUpperExclusive = Some (\<lambda>x lo hi. lo \<le> x \<and> x < hi)"
| "with_comparator_between BetweenExclusive = Some (\<lambda>x lo hi. lo < x \<and> x < hi)"
| "with_comparator_between _ = None"

text \<open>
  Modelled from the spec: \<open>_scan_with_iterators\<close> (\<open>abstract_single_column_table_scan_impl\<close>)
  is not among the sources. It appends \<open>(chunk_id, chunk_offset)\<close> for every position for
  which the comparator holds, skipping the NULL positions when \<open>CheckForNull\<close> is set.
\<close>

definition scan_with_iterators ::
  "bool \<Rightarrow> ('a SegmentPosition \<Rightarrow> bool) \<Rightarrow> 'a SegmentPosition list \<Rightarrow> ChunkID \<Rightarrow> PosList
    \<Rightarrow> PosList" where
  "scan_with_iterators check_for_null func positions chunk_id matches =
    matches @ map (\<lambda>position. RowID chunk_id (chunk_offset position))
      (filter (\<lambda>position. (\<not> check_for_null \<or> \<not> is_null position) \<and> func position)
         positions)"

text \<open>
  The scan with its constructor's arguments. \<open>_left_value\<close> and \<open>_right_value\<close> are
  values of the column's type or NULL (\<open>None\<close>); \<open>type_cast_variant\<close> of lines 57 and 58 has
  no value for NULL.
\<close>

record 'v ColumnBetweenTableScanImpl =
  predicate_condition :: PredicateCondition
  left_value :: "'v option"
  right_value :: "'v option"

definition scan_generic_segment ::
  "('v::linorder) ColumnBetweenTableScanImpl \<Rightarrow> 'v segment \<Rightarrow> ChunkID \<Rightarrow> PosList
    \<Rightarrow> ChunkOffset list option \<Rightarrow> error + PosList" where
  "scan_generic_segment scan segment chunk_id matches position_filter =
    (case segment_with_iterators_filtered segment position_filter of
       Inl e \<Rightarrow> Inl e
     | Inr positions \<Rightarrow>
        (case (left_value scan, right_value scan) of
           (Some typed_left_value, Some typed_right_value) \<Rightarrow>
             (case with_comparator_between (predicate_condition scan) of
                None \<Rightarrow> Inl InvalidArgument
              | Some between_comparator_function \<Rightarrow>
                 Inr (scan_with_iterators True
                   (\<lambda>position.
                      case position_value position of
                        Some x \<Rightarrow> between_comparator_function x typed_left_value typed_right_value
                      | None \<Rightarrow> False)
                   positions chunk_id matches))
         | _ \<Rightarrow> Inl InvalidArgument))"

text \<open>Lines 73 to 78 and 80 to 90: the two value ids of the dictionary path.\<close>

definition left_value_id :: "('v::linorder) ColumnBetweenTableScanImpl \<Rightarrow> 'v list \<Rightarrow> ValueID" where
  "left_value_id scan dictionary =
    (if is_between_predicate_condition_lower_inclusive (predicate_condition scan)
     then lower_bound dictionary (left_value scan)
     else upper_bound dictionary (left_value scan))"

definition right_value_id :: "('v::linorder) ColumnBetweenTableScanImpl \<Rightarrow> 'v list \<Rightarrow> ValueID" where
  "right_value_id scan dictionary =
    (let right_value_id =
           (if is_between_predicate_condition_upper_inclusive (predicate_condition scan)
            then upper_bound dictionary (right_value scan)
            else lower_bound dictionary (right_value scan))
     in if right_value_id = INVALID_VALUE_ID then of_nat (length dictionary)
        else right_value_id)"

definition scan_dictionary_segment ::
  "('v::linorder) ColumnBetweenTableScanImpl \<Rightarrow> 'v list \<Rightarrow> ValueID list \<Rightarrow> ChunkID \<Rightarrow> PosList
    \<Rightarrow> ChunkOffset list option \<Rightarrow> error + PosList" where
  "scan_dictionary_segment scan dictionary attribute_vector chunk_id matches position_filter =
    (let left_value_id = left_value_id scan dictionary;
         right_value_id = right_value_id scan dictionary;
         unique_values_count = (of_nat (length dictionary) :: ValueID)
     in if left_value_id = 0 \<and> right_value_id = unique_values_count
        then (case attribute_vector_with_iterators dictionary attribute_vector position_filter of
                Inl e \<Rightarrow> Inl e
              | Inr positions \<Rightarrow>
                  Inr (scan_with_iterators True (\<lambda>position. True) positions chunk_id matches))
        else if left_value_id = INVALID_VALUE_ID \<or> left_value_id \<ge> unique_values_count
                \<or> left_value_id \<ge> right_value_id
        then Inr matches
        else (let value_id_diff = right_value_id - left_value_id
              in case attribute_vector_with_iterators dictionary attribute_vector position_filter of
                   Inl e \<Rightarrow> Inl e
                 | Inr positions \<Rightarrow>
                     Inr (scan_with_iterators False
                       (\<lambda>position. position_value position - left_value_id < value_id_diff)
                       positions chunk_id matches)))"

definition scan_non_reference_segment ::
  "('v::linorder) ColumnBetweenTableScanImpl \<Rightarrow> 'v segment \<Rightarrow> ChunkID \<Rightarrow> PosList
    \<Rightarrow> ChunkOffset list option \<Rightarrow> error + PosList" where
  "scan_non_reference_segment scan segment chunk_id matches position_filter =
    (if left_value scan = None \<or> right_value scan = None then Inr matches
     else (case segment of
             DictionarySegment dt dictionary attribute_vector \<Rightarrow>
               scan_dictionary_segment scan dictionary attribute_vector chunk_id matches
                 position_filter
           | _ \<Rightarrow> scan_generic_segment scan segment chunk_id matches position_filter))"

text \<open>
  The invariant of a dictionary segment in the spec's data model: the dictionary is
  sorted and its entries are unique, every code is the code of an entry or the NULL
  code \<open>|dictionary|\<close>, and the codes of the entries and of NULL are below
  \<open>INVALID_VALUE_ID\<close>.
\<close>

definition valid_dictionary_segment :: "('v::linorder) list \<Rightarrow> ValueID list \<Rightarrow> bool" where
  "valid_dictionary_segment dictionary attribute_vector =
    (sorted_wrt (<) dictionary \<and> length dictionary < unat INVALID_VALUE_ID
     \<and> list_all (\<lambda>code. unat code \<le> length dictionary) attribute_vector)"

text \<open>The number of dictionary entries of a dictionary segment is a \<open>ValueID\<close>.\<close>

fun unique_values_fit :: "'v segment \<Rightarrow> bool" where
  "unique_values_fit (DictionarySegment dt dictionary attribute_vector) =
     (length dictionary < 2 ^ 32)"
| "unique_values_fit _ = True"

definition valid_position_filter :: "nat \<Rightarrow> ChunkOffset list option \<Rightarrow> bool" where
  "valid_position_filter n position_filter =
    (case position_filter of None \<Rightarrow> True | Some f \<Rightarrow> list_all (\<lambda>offset. offset < n) f)"


section \<open>Table\<close>

text \<open>
  The constructor of \<open>Table\<close> (lines 23 to 32 of \<open>table.cpp\<close>) with its assertion. The
  append mutex, the bloom filters and the indexes are left out.
\<close>

definition construct_table ::
  "ColumnDefinition list \<Rightarrow> TableType \<Rightarrow> 32 word \<Rightarrow> UseMvcc \<Rightarrow> error + 'v table" where
  "construct_table defs ty mcs mvcc =
    (if mcs > 0 then Inr (Table defs ty mcs mvcc []) else Inl InvalidArgument)"

text \<open>
  \<open>Table::create_dummy_table\<close>; the maximal chunk size and the MVCC flag are the
  default arguments of the constructor, which the header declares and which are
  parameters here.
\<close>

definition create_dummy_table ::
  "32 word \<Rightarrow> UseMvcc \<Rightarrow> ColumnDefinition list \<Rightarrow> error + 'v table" where
  "create_dummy_table default_max_chunk_size default_use_mvcc defs =
    construct_table defs Data default_max_chunk_size default_use_mvcc"

text \<open>
  \<open>Table::append_chunk\<close>; the assertions of lines 214 to 227 are compiled in debug
  builds only.
\<close>

definition append_chunk :: "'v segment list \<Rightarrow> 'v table \<Rightarrow> 'v table" where
  "append_chunk columns t =
    (let chunk_size = (case columns of [] \<Rightarrow> 0 | c # _ \<Rightarrow> segment_size c);
         mvcc_columns = (if use_mvcc t = Yes then Some chunk_size else None)
     in Table (column_definitions t) (table_type t) (max_chunk_size t) (use_mvcc t)
          (chunks t @ [Chunk columns mvcc_columns]))"

definition append_mutable_chunk :: "'v table \<Rightarrow> 'v table" where
  "append_mutable_chunk t =
    append_chunk
      (map (\<lambda>column_definition.
              ValueSegment (data_type column_definition) (nullable column_definition) [])
         (column_definitions t)) t"

text \<open>
  Modelled from the spec: \<open>Chunk::append\<close> and the \<open>append\<close> of a segment are not among
  the sources. A row is appended value by value to the segments of the chunk; its
  length must be the number of columns, only value segments take new rows, NULL only
  if the segment is nullable; the MVCC slots grow by one.
\<close>

fun segment_append :: "'v option \<Rightarrow> 'v segment \<Rightarrow> error + 'v segment" where
  "segment_append v (ValueSegment dt nl vs) =
     (if v = None \<and> \<not> nl then Inl SchemaMismatch else Inr (ValueSegment dt nl (vs @ [v])))"
| "segment_append v _ = Inl InvalidArgument"

definition chunk_append :: "'v option list \<Rightarrow> 'v chunk \<Rightarrow> error + 'v chunk" where
  "chunk_append row c =
    (if length row \<noteq> length (segments c) then Inl SchemaMismatch
     else (case sequence (map (\<lambda>(v, s). segment_append v s) (zip row (segments c))) of
             Inl e \<Rightarrow> Inl e
           | Inr segs \<Rightarrow> Inr (Chunk segs (map_option Suc (mvcc_columns c)))))"

text \<open>\<open>Table::append\<close>, lines 90 to 96.\<close>

definition append' :: "'v option list \<Rightarrow> 'v table \<Rightarrow> error + 'v table" where
  "append' row t =
    (let t1 = (if chunks t = [] \<or> chunk_size (last (chunks t)) \<ge> unat (max_chunk_size t)
               then append_mutable_chunk t else t)
     in if chunks t1 = [] then Inl OutOfRange
        else (case chunk_append row (last (chunks t1)) of
                Inl e \<Rightarrow> Inl e
              | Inr c \<Rightarrow>
                 Inr (Table (column_definitions t1) (table_type t1) (max_chunk_size t1)
                        (use_mvcc t1) (butlast (chunks t1) @ [c]))))"

text \<open>\<open>Table::row_count\<close>, lines 109 to 115, with its 64-bit counter.\<close>

definition row_count :: "'v table \<Rightarrow> 64 word" where
  "row_count t = foldl (\<lambda>ret c. ret + of_nat (chunk_size c)) 0 (chunks t)"

text \<open>
  The chunks of a table are filled: the maximal chunk size is positive, every chunk
  but the last has exactly that many rows, and the last has at most that many.
\<close>

definition chunks_filled :: "'v table \<Rightarrow> bool" where
  "chunks_filled t =
    (0 < unat (max_chunk_size t)
     \<and> list_all (\<lambda>c. chunk_size c = unat (max_chunk_size t)) (butlast (chunks t))
     \<and> (chunks t = [] \<or> chunk_size (last (chunks t)) \<le> unat (max_chunk_size t)))"

text \<open>A table filled row by row: the rows appended in turn, up to the first error.\<close>

fun append_rows :: "'v option list list \<Rightarrow> 'v table \<Rightarrow> error + 'v table" where
  "append_rows [] t = Inr t"
| "append_rows (row # rows) t =
     (case append' row t of Inl e \<Rightarrow> Inl e | Inr t' \<Rightarrow> append_rows rows t')"


section \<open>The nested-loop join\<close>

text \<open>
  Modelled from the spec: \<open>JoinMode\<close>, \<open>flip_predicate_condition\<close> and \<open>with_comparator\<close>
  (\<open>types.hpp\<close>, \<open>type_comparison.hpp\<close>) are not among the sources. Flipping exchanges
  \<open><\<close> with \<open>>\<close> and \<open>\<le>\<close> with \<open>\<ge>\<close> and leaves \<open>=\<close> and \<open>\<noteq>\<close> as they are (and, here,
  every other condition); \<open>with_comparator\<close> gives the comparison of one of these six
  conditions and fails for any other condition.
\<close>

datatype JoinMode = Inner | Left | Right | Outer | Cross | Semi | Anti

fun flip_predicate_condition :: "PredicateCondition \<Rightarrow> PredicateCondition" where
  "flip_predicate_condition LessThan = GreaterThan"
| "flip_predicate_condition GreaterThan = LessThan"
| "flip_predicate_condition LessThanEquals = GreaterThanEquals"
| "flip_predicate_condition GreaterThanEquals = LessThanEquals"
| "flip_predicate_condition pc = pc"

fun with_comparator :: "PredicateCondition \<Rightarrow> (('v::linorder) \<Rightarrow> 'v \<Rightarrow> bool) option" where
  "with_comparator Equals = Some (\<lambda>a b. a = b)"
| "with_comparator NotEquals = Some (\<lambda>a b. a \<noteq> b)"
| "with_comparator LessThan = Some (\<lambda>a b. a < b)"
| "with_comparator LessThanEquals = Some (\<lambda>a b. a \<le> b)"
| "with_comparator GreaterThan = Some (\<lambda>a b. a > b)"
| "with_comparator GreaterThanEquals = Some (\<lambda>a b. a \<ge> b)"
| "with_comparator _ = None"

text \<open>
  \<open>JoinParams\<close>: the two position lists, the match bits of the left segment and of the
  right segment, and the constants of the join. The C++ struct holds references to the
  four containers; here the struct is passed through the loops and returned.
\<close>

record JoinParams =
  pos_list_left :: PosList
  pos_list_right :: PosList
  left_matches :: "bool list"
  right_matches :: "bool list"
  track_left_matches :: bool
  track_right_matches :: bool
  mode :: JoinMode
  predicate_condition' :: PredicateCondition

text \<open>
  The field \<open>chunk_offset\<close> of a \<open>RowID\<close>; the offset of \<open>NULL_ROW_ID\<close> is beyond every
  vector.
\<close>

fun row_chunk_offset :: "RowID \<Rightarrow> ChunkOffset option" where
  "row_chunk_offset (RowID c offset) = Some offset"
| "row_chunk_offset NULL_ROW_ID = None"

text \<open>\<open>v[offset] = true\<close> on a \<open>std::vector<bool>\<close>.\<close>

definition set_match :: "bool list \<Rightarrow> ChunkOffset option \<Rightarrow> error + bool list" where
  "set_match v offset =
    (case offset of
       None \<Rightarrow> Inl OutOfRange
     | Some i \<Rightarrow> if i < length v then Inr (v[i := True]) else Inl OutOfRange)"

definition process_match :: "RowID \<Rightarrow> RowID \<Rightarrow> JoinParams \<Rightarrow> error + JoinParams" where
  "process_match left_row_id right_row_id params =
    (let params1 = params\<lparr>pos_list_left := pos_list_left params @ [left_row_id],
                           pos_list_right := pos_list_right params @ [right_row_id]\<rparr>
     in case (if track_left_matches params1
              then set_match (left_matches params1) (row_chunk_offset left_row_id)
              else Inr (left_matches params1)) of
          Inl e \<Rightarrow> Inl e
        | Inr l \<Rightarrow>
           (case (if track_right_matches params1
                  then set_match (right_matches params1) (row_chunk_offset right_row_id)
                  else Inr (right_matches params1)) of
              Inl e \<Rightarrow> Inl e
            | Inr r \<Rightarrow> Inr (params1\<lparr>left_matches := l, right_matches := r\<rparr>)))"

text \<open>A loop whose body may fail: the state after the last element, or the first error.\<close>

fun fold_error :: "('s \<Rightarrow> 'a \<Rightarrow> error + 's) \<Rightarrow> 'a list \<Rightarrow> 's \<Rightarrow> error + 's" where
  "fold_error f [] s = Inr s"
| "fold_error f (x # xs) s = (case f s x of Inl e \<Rightarrow> Inl e | Inr s' \<Rightarrow> fold_error f xs s')"

text \<open>Lines 50 to 58: the inner loop for one left position that is not NULL.\<close>

definition join_right_positions ::
  "('v \<Rightarrow> 'v \<Rightarrow> bool) \<Rightarrow> 'v option SegmentPosition \<Rightarrow> ChunkID \<Rightarrow> ChunkID
    \<Rightarrow> JoinParams \<Rightarrow> 'v option SegmentPosition \<Rightarrow> error + JoinParams" where
  "join_right_positions func left_value' chunk_id_left chunk_id_right params right_value' =
    (if is_null right_value' then Inr params
     else (case (position_value left_value', position_value right_value') of
             (Some a, Some b) \<Rightarrow>
               if func a b
               then process_match (RowID chunk_id_left (chunk_offset left_value'))
                      (RowID chunk_id_right (chunk_offset right_value')) params
               else Inr params
           | _ \<Rightarrow> Inr params))"

text \<open>\<open>join_two_typed_segments\<close>, lines 46 to 59.\<close>

definition join_two_typed_segments ::
  "('v \<Rightarrow> 'v \<Rightarrow> bool) \<Rightarrow> 'v option SegmentPosition list \<Rightarrow> 'v option SegmentPosition list
    \<Rightarrow> ChunkID \<Rightarrow> ChunkID \<Rightarrow> JoinParams \<Rightarrow> error + JoinParams" where
  "join_two_typed_segments func left_positions right_positions chunk_id_left chunk_id_right
     params =
    fold_error
      (\<lambda>params left_value'.
         if is_null left_value' then Inr params
         else fold_error (join_right_positions func left_value' chunk_id_left chunk_id_right)
                right_positions params)
      left_positions params"

text \<open>
  \<open>BaseSegment::data_type\<close>; a reference segment has the data type of the column it
  points to. \<open>same_segment_type\<close> is the \<open>dynamic_cast\<close> of line 206 for two segments of
  one data type.
\<close>

fun segment_data_type :: "'v segment \<Rightarrow> error + DataType" where
  "segment_data_type (ValueSegment dt nl vs) = Inr dt"
| "segment_data_type (DictionarySegment dt dictionary attribute_vector) = Inr dt"
| "segment_data_type (ReferenceSegment t c pl) =
     (if c < length (column_definitions t) then Inr (data_type (column_definitions t ! c))
      else Inl OutOfRange)"

fun same_segment_type :: "'v segment \<Rightarrow> 'v segment \<Rightarrow> bool" where
  "same_segment_type (ValueSegment _ _ _) (ValueSegment _ _ _) = True"
| "same_segment_type (DictionarySegment _ _ _) (DictionarySegment _ _ _) = True"
| "same_segment_type (ReferenceSegment _ _ _) (ReferenceSegment _ _ _) = True"
| "same_segment_type _ _ = False"

text \<open>
  Both paths of \<open>_join_two_untyped_segments\<close> run \<open>join_two_typed_segments\<close> on the
  positions of the two segments with the comparator of the predicate condition.
\<close>

definition join_segments_with_iterators ::
  "('v::linorder) segment \<Rightarrow> 'v segment \<Rightarrow> ChunkID \<Rightarrow> ChunkID \<Rightarrow> JoinParams
    \<Rightarrow> error + JoinParams" where
  "join_segments_with_iterators segment_left segment_right chunk_id_left chunk_id_right params =
    (case segment_with_iterators_filtered segment_left None of
       Inl e \<Rightarrow> Inl e
     | Inr left_positions \<Rightarrow>
        (case segment_with_iterators_filtered segment_right None of
           Inl e \<Rightarrow> Inl e
         | Inr right_positions \<Rightarrow>
            (case with_comparator (predicate_condition' params) of
               None \<Rightarrow> Inl InvalidArgument
             | Some comparator \<Rightarrow>
                 join_two_typed_segments comparator left_positions right_positions
                   chunk_id_left chunk_id_right params)))"

definition join_two_untyped_segments ::
  "('v::linorder) segment \<Rightarrow> 'v segment \<Rightarrow> ChunkID \<Rightarrow> ChunkID \<Rightarrow> JoinParams
    \<Rightarrow> error + JoinParams" where
  "join_two_untyped_segments base_segment_left base_segment_right chunk_id_left chunk_id_right
     params =
    (case segment_data_type base_segment_left of
       Inl e \<Rightarrow> Inl e
     | Inr left_type \<Rightarrow>
        (case segment_data_type base_segment_right of
           Inl e \<Rightarrow> Inl e
         | Inr right_type \<Rightarrow>
            if left_type = right_type \<and> same_segment_type base_segment_left base_segment_right
            then join_segments_with_iterators base_segment_left base_segment_right
                   chunk_id_left chunk_id_right params
            else if (left_type \<noteq> String \<and> right_type \<noteq> String)
                    \<or> (left_type = String \<and> right_type = String)
            then join_segments_with_iterators base_segment_left base_segment_right
                   chunk_id_left chunk_id_right params
            else Inl TypeMismatch))"

text \<open>\<open>get_chunk(chunk_id)->get_segment(column_id)\<close> and \<open>std::vector::resize\<close>.\<close>

definition get_segment :: "'v chunk \<Rightarrow> ColumnID \<Rightarrow> error + 'v segment" where
  "get_segment c column_id =
    (if column_id < length (segments c) then Inr (segments c ! column_id) else Inl OutOfRange)"

definition resize :: "bool list \<Rightarrow> nat \<Rightarrow> bool list" where
  "resize v n = take n v @ replicate (n - length v) False"

text \<open>
  The locals of \<open>_on_execute\<close> that live across the loops: the two position lists and
  the match bits of every right chunk.
\<close>

record join_state =
  state_pos_list_left :: PosList
  state_pos_list_right :: PosList
  state_right_matches :: "bool list list"

definition is_outer_join :: "JoinMode \<Rightarrow> bool" where
  "is_outer_join m = (m = Left \<or> m = Right \<or> m = Outer)"

text \<open>
  Lines 128 to 136: one right chunk for the left segment; the state and the match bits
  of the left segment are passed on.
\<close>

definition join_right_chunk ::
  "JoinMode \<Rightarrow> PredicateCondition \<Rightarrow> ColumnID \<Rightarrow> ('v::linorder) segment \<Rightarrow> ChunkID
    \<Rightarrow> join_state \<times> bool list \<Rightarrow> ChunkID \<times> 'v chunk \<Rightarrow> error + join_state \<times> bool list" where
  "join_right_chunk m maybe_flipped_predicate_condition right_column_id segment_left
     chunk_id_left st right_chunk =
    (case st of (s, left_matches') \<Rightarrow>
     case right_chunk of (chunk_id_right, c) \<Rightarrow>
     case get_segment c right_column_id of
       Inl e \<Rightarrow> Inl e
     | Inr segment_right \<Rightarrow>
        if \<not> chunk_id_right < length (state_right_matches s) then Inl OutOfRange
        else
          (case join_two_untyped_segments segment_left segment_right chunk_id_left
                  chunk_id_right
                  \<lparr>pos_list_left = state_pos_list_left s,
                   pos_list_right = state_pos_list_right s,
                   left_matches = left_matches',
                   right_matches =
                     resize (state_right_matches s ! chunk_id_right) (segment_size segment_right),
                   track_left_matches = is_outer_join m,
                   track_right_matches = (m = Outer),
                   mode = m,
                   predicate_condition' = maybe_flipped_predicate_condition\<rparr> of
             Inl e \<Rightarrow> Inl e
           | Inr params \<Rightarrow>
               Inr (\<lparr>state_pos_list_left = pos_list_left params,
                     state_pos_list_right = pos_list_right params,
                     state_right_matches =
                       (state_right_matches s)[chunk_id_right := right_matches params]\<rparr>,
                    JoinParams.left_matches params)))"

text \<open>Lines 138 to 146: the unmatched rows of a left chunk.\<close>

definition add_unmatched_left :: "JoinMode \<Rightarrow> ChunkID \<Rightarrow> bool list \<Rightarrow> join_state \<Rightarrow> join_state" where
  "add_unmatched_left m chunk_id_left left_matches' s =
    (if is_outer_join m
     then foldl
            (\<lambda>s offset.
               if \<not> left_matches' ! offset
               then s\<lparr>state_pos_list_left := state_pos_list_left s @ [RowID chunk_id_left offset],
                      state_pos_list_right := state_pos_list_right s @ [NULL_ROW_ID]\<rparr>
               else s)
            s [0..<length left_matches']
     else s)"

text \<open>Lines 117 to 147: the body of the loop over the left chunks.\<close>

definition join_left_chunk ::
  "JoinMode \<Rightarrow> PredicateCondition \<Rightarrow> ColumnID \<Rightarrow> ColumnID \<Rightarrow> ('v::linorder) table
    \<Rightarrow> join_state \<Rightarrow> ChunkID \<times> 'v chunk \<Rightarrow> error + join_state" where
  "join_left_chunk m maybe_flipped_predicate_condition left_column_id right_column_id
     right_table s left_chunk =
    (case left_chunk of (chunk_id_left, c) \<Rightarrow>
     case get_segment c left_column_id of
       Inl e \<Rightarrow> Inl e
     | Inr segment_left \<Rightarrow>
        (case fold_error
                (join_right_chunk m maybe_flipped_predicate_condition right_column_id
                   segment_left chunk_id_left)
                (enumerate 0 (chunks right_table))
                (s, if is_outer_join m then replicate (segment_size segment_left) False else [])
         of
           Inl e \<Rightarrow> Inl e
         | Inr (s', left_matches') \<Rightarrow> Inr (add_unmatched_left m chunk_id_left left_matches' s')))"

text \<open>Lines 151 to 162: the unmatched rows of the right side.\<close>

definition add_unmatched_right_chunk ::
  "join_state \<Rightarrow> ChunkID \<times> 'v chunk \<Rightarrow> error + join_state" where
  "add_unmatched_right_chunk s right_chunk =
    (case right_chunk of (chunk_id_right, c) \<Rightarrow>
      fold_error
        (\<lambda>s offset.
           if chunk_id_right < length (state_right_matches s)
              \<and> offset < length (state_right_matches s ! chunk_id_right)
           then (if \<not> state_right_matches s ! chunk_id_right ! offset
                 then Inr (s\<lparr>state_pos_list_left := state_pos_list_left s @ [NULL_ROW_ID],
                             state_pos_list_right :=
                               state_pos_list_right s @ [RowID chunk_id_right offset]\<rparr>)
                 else Inr s)
           else Inl OutOfRange)
        [0..<chunk_size c] s)"

text \<open>
  Lines 93 to 162 of \<open>_on_execute\<close>: the two position lists of the join of the two input
  tables.
\<close>

definition join_positions ::
  "JoinMode \<Rightarrow> PredicateCondition \<Rightarrow> ColumnID \<times> ColumnID \<Rightarrow> ('v::linorder) table \<Rightarrow> 'v table
    \<Rightarrow> error + PosList \<times> PosList" where
  "join_positions m pc column_ids input_table_left input_table_right =
    (let left_table = (if m = Right then input_table_right else input_table_left);
         right_table = (if m = Right then input_table_left else input_table_right);
         left_column_id = (if m = Right then snd column_ids else fst column_ids);
         right_column_id = (if m = Right then fst column_ids else snd column_ids);
         maybe_flipped_predicate_condition =
           (if m = Right then flip_predicate_condition pc else pc)
     in case fold_error
               (join_left_chunk m maybe_flipped_predicate_condition left_column_id
                  right_column_id right_table)
               (enumerate 0 (chunks left_table))
               \<lparr>state_pos_list_left = [], state_pos_list_right = [],
                state_right_matches = replicate (length (chunks right_table)) []\<rparr> of
          Inl e \<Rightarrow> Inl e
        | Inr s \<Rightarrow>
           (case (if m = Outer
                  then fold_error add_unmatched_right_chunk (enumerate 0 (chunks right_table)) s
                  else Inr s) of
              Inl e \<Rightarrow> Inl e
            | Inr s' \<Rightarrow> Inr (state_pos_list_left s', state_pos_list_right s')))"

text \<open>
  \<open>_write_output_chunks\<close>, lines 272 to 312. The static casts of lines 287 and 293 are
  right only for a reference segment; a chunk, a column or an offset that does not
  exist is an error here.
\<close>

definition dereference_row :: "'v table \<Rightarrow> ColumnID \<Rightarrow> RowID \<Rightarrow> error + RowID" where
  "dereference_row input_table column_id row =
    (case row of
       NULL_ROW_ID \<Rightarrow> Inr NULL_ROW_ID
     | RowID c offset \<Rightarrow>
        if c < length (chunks input_table)
        then (case get_segment (chunks input_table ! c) column_id of
                Inl e \<Rightarrow> Inl e
              | Inr (ReferenceSegment t rc pl) \<Rightarrow>
                  if offset < length pl then Inr (pl ! offset) else Inl OutOfRange
              | Inr _ \<Rightarrow> Inl InvalidArgument)
        else Inl OutOfRange)"

definition output_segment ::
  "32 word \<Rightarrow> UseMvcc \<Rightarrow> 'v table \<Rightarrow> PosList \<Rightarrow> ColumnID \<Rightarrow> error + 'v segment" where
  "output_segment default_max_chunk_size default_use_mvcc input_table pl column_id =
    (if table_type input_table = References
     then if length (chunks input_table) > 0
          then (case sequence (map (dereference_row input_table column_id) pl) of
                  Inl e \<Rightarrow> Inl e
                | Inr new_pos_list \<Rightarrow>
                   (case get_segment (chunks input_table ! 0) column_id of
                      Inl e \<Rightarrow> Inl e
                    | Inr (ReferenceSegment t rc first_pos_list) \<Rightarrow>
                        Inr (ReferenceSegment t rc new_pos_list)
                    | Inr _ \<Rightarrow> Inl InvalidArgument))
          else (case create_dummy_table default_max_chunk_size default_use_mvcc
                       (column_definitions input_table) of
                  Inl e \<Rightarrow> Inl e
                | Inr dummy_table \<Rightarrow> Inr (ReferenceSegment dummy_table column_id pl))
     else Inr (ReferenceSegment input_table column_id pl))"

definition write_output_chunks ::
  "32 word \<Rightarrow> UseMvcc \<Rightarrow> 'v segment list \<Rightarrow> 'v table \<Rightarrow> PosList \<Rightarrow> error + 'v segment list"
where
  "write_output_chunks default_max_chunk_size default_use_mvcc segs input_table pl =
    fold_error
      (\<lambda>segs column_id.
         case output_segment default_max_chunk_size default_use_mvcc input_table pl column_id of
           Inl e \<Rightarrow> Inl e
         | Inr segment \<Rightarrow> Inr (segs @ [segment]))
      [0..<length (column_definitions input_table)] segs"

text \<open>
  \<open>_on_execute\<close>; \<open>output_table\<close> is the result of \<open>_initialize_output_table\<close>, which is
  not among the sources. In the mode \<open>Right\<close> the tables were swapped, so the position list
  of the swapped right table belongs to the left input (lines 167 to 173).
\<close>

definition on_execute ::
  "32 word \<Rightarrow> UseMvcc \<Rightarrow> 'v table \<Rightarrow> JoinMode \<Rightarrow> PredicateCondition \<Rightarrow> ColumnID \<times> ColumnID
    \<Rightarrow> ('v::linorder) table \<Rightarrow> 'v table \<Rightarrow> error + 'v table" where
  "on_execute default_max_chunk_size default_use_mvcc output_table m pc column_ids
     input_table_left input_table_right =
    (case join_positions m pc column_ids input_table_left input_table_right of
       Inl e \<Rightarrow> Inl e
     | Inr (pl, pr) \<Rightarrow>
        (case write_output_chunks default_max_chunk_size default_use_mvcc []
                input_table_left (if m = Right then pr else pl) of
           Inl e \<Rightarrow> Inl e
         | Inr segs \<Rightarrow>
            (case write_output_chunks default_max_chunk_size default_use_mvcc segs
                    input_table_right (if m = Right then pl else pr) of
               Inl e \<Rightarrow> Inl e
             | Inr segs' \<Rightarrow> Inr (append_chunk segs' output_table))))"

subsection \<open>The pairs of the nested loops and the order of the output\<close>

text \<open>
  The pairs that the two nested loops over two sequences of positions find: for every
  left position that is not NULL, in turn, every right position that is not NULL and
  for which the comparator holds, in turn.
\<close>

definition matching_right_positions ::
  "('v \<Rightarrow> 'v \<Rightarrow> bool) \<Rightarrow> 'v option SegmentPosition \<Rightarrow> ChunkID \<Rightarrow> ChunkID
    \<Rightarrow> 'v option SegmentPosition list \<Rightarrow> (RowID \<times> RowID) list" where
  "matching_right_positions func l chunk_id_left chunk_id_right right_positions =
    concat (map (\<lambda>r.
      if \<not> is_null r
         \<and> (case (position_value l, position_value r) of
               (Some a, Some b) \<Rightarrow> func a b
             | _ \<Rightarrow> False)
      then [(RowID chunk_id_left (chunk_offset l), RowID chunk_id_right (chunk_offset r))]
      else []) right_positions)"

definition matched_pairs ::
  "('v \<Rightarrow> 'v \<Rightarrow> bool) \<Rightarrow> 'v option SegmentPosition list \<Rightarrow> 'v option SegmentPosition list
    \<Rightarrow> ChunkID \<Rightarrow> ChunkID \<Rightarrow> (RowID \<times> RowID) list" where
  "matched_pairs func left_positions right_positions chunk_id_left chunk_id_right =
    concat (map (\<lambda>l.
      if is_null l then []
      else matching_right_positions func l chunk_id_left chunk_id_right right_positions)
      left_positions)"

text \<open>
  The lexicographic order of quadruples, and the order of the rows in the output of the
  join: \<open>follows p q\<close> says that the row \<open>q\<close> may come after the row \<open>p\<close>. Two matched rows
  are in the lexicographic order of (left chunk, right chunk, left offset, right
  offset); a matched row after an unmatched left row is of a later left chunk; and only
  unmatched right rows come after an unmatched right row.
\<close>

definition lexicographic :: "nat \<times> nat \<times> nat \<times> nat \<Rightarrow> nat \<times> nat \<times> nat \<times> nat \<Rightarrow> bool" where
  "lexicographic a b =
    (case a of (a1, a2, a3, a4) \<Rightarrow>
     case b of (b1, b2, b3, b4) \<Rightarrow>
       a1 < b1 \<or> (a1 = b1 \<and> (a2 < b2 \<or> (a2 = b2 \<and> (a3 < b3 \<or> (a3 = b3 \<and> a4 < b4))))))"

fun follows :: "RowID \<times> RowID \<Rightarrow> RowID \<times> RowID \<Rightarrow> bool" where
  "follows (RowID cl lo, RowID cr ro) (RowID cl' lo', RowID cr' ro') =
     lexicographic (cl, cr, lo, ro) (cl', cr', lo', ro')"
| "follows (RowID cl lo, RowID cr ro) (RowID cl' lo', NULL_ROW_ID) = (cl \<le> cl')"
| "follows (RowID cl lo, NULL_ROW_ID) (RowID cl' lo', RowID cr' ro') = (cl < cl')"
| "follows (RowID cl lo, NULL_ROW_ID) (RowID cl' lo', NULL_ROW_ID) = (cl \<le> cl')"
| "follows (RowID cl lo, r) (NULL_ROW_ID, r') = True"
| "follows (NULL_ROW_ID, r) (RowID cl' lo', r') = False"
| "follows (NULL_ROW_ID, r) (NULL_ROW_ID, r') = True"

text \<open>
  The order of the spec: two matched rows in the lexicographic order of (left chunk,
  left offset, right chunk, right offset).
\<close>

fun follows_by_left_row :: "RowID \<times> RowID \<Rightarrow> RowID \<times> RowID \<Rightarrow> bool" where
  "follows_by_left_row (RowID cl lo, RowID cr ro) (RowID cl' lo', RowID cr' ro') =
     lexicographic (cl, lo, cr, ro) (cl', lo', cr', ro')"
| "follows_by_left_row p q = follows p q"

text \<open>
  What a run of the loops over one left chunk adds to the parameters: the pairs \<open>M\<close> at
  the end of the two position lists, and the match bit of every left offset that is
  the left row of a pair, if the left matches are tracked.
\<close>

definition appends :: "JoinParams \<Rightarrow> JoinParams \<Rightarrow> ChunkID \<Rightarrow> (RowID \<times> RowID) list \<Rightarrow> bool" where
  "appends p p' chunk_id_left M =
    (pos_list_left p' = pos_list_left p @ map fst M
     \<and> pos_list_right p' = pos_list_right p @ map snd M
     \<and> track_left_matches p' = track_left_matches p
     \<and> track_right_matches p' = track_right_matches p
     \<and> predicate_condition' p' = predicate_condition' p
     \<and> mode p' = mode p
     \<and> length (left_matches p') = length (left_matches p)
     \<and> list_all (\<lambda>offset. left_matches p' ! offset =
           (left_matches p ! offset
            \<or> (track_left_matches p \<and> RowID chunk_id_left offset \<in> fst ` set M)))
         [0..<length (left_matches p)])"


text \<open>The same for the state of \<open>_on_execute\<close> and the match bits of the left segment.\<close>

definition state_appends ::
  "JoinMode \<Rightarrow> join_state \<times> bool list \<Rightarrow> join_state \<times> bool list \<Rightarrow> ChunkID
    \<Rightarrow> (RowID \<times> RowID) list \<Rightarrow> bool" where
  "state_appends m st st' chunk_id_left M =
    (state_pos_list_left (fst st') = state_pos_list_left (fst st) @ map fst M
     \<and> state_pos_list_right (fst st') = state_pos_list_right (fst st) @ map snd M
     \<and> length (state_right_matches (fst st')) = length (state_right_matches (fst st))
     \<and> length (snd st') = length (snd st)
     \<and> list_all (\<lambda>offset. snd st' ! offset =
           (snd st ! offset \<or> (is_outer_join m \<and> RowID chunk_id_left offset \<in> fst ` set M)))
         [0..<length (snd st)])"


section \<open>Examples\<close>

subsection \<open>Example plans\<close>

text \<open>
  Three predicate runs over a stored table with the integer columns \<open>a\<close> and \<open>b\<close>:
  \<open>a >= 1\<close>, \<open>a <= 5\<close>, \<open>b > 2\<close> as three nodes; the single node
  \<open>(a = 1 OR a = 2) AND b >= 3\<close>; and the single node
  \<open>(a = 1 OR a = 2) AND (b = 1 OR b = 2)\<close>.
\<close>

definition stored_table :: "(string, int) lqp" where
  "stored_table = OtherNode ''StoredTable'' None None"

definition two_sided_and_one_sided :: "(string, int) lqp" where
  "two_sided_and_one_sided =
    PredicateNode (BinaryPredicateExpression GreaterThanEquals
        (LQPColumnExpression ''a'') (ValueExpression 1))
     (Some (PredicateNode (BinaryPredicateExpression LessThanEquals
        (LQPColumnExpression ''a'') (ValueExpression 5))
     (Some (PredicateNode (BinaryPredicateExpression GreaterThan
        (LQPColumnExpression ''b'') (ValueExpression 2))
     (Some stored_table)))))"

definition a_is_1_or_2 :: "(string, int) expression" where
  "a_is_1_or_2 =
     LogicalExpression Or
       [BinaryPredicateExpression Equals (LQPColumnExpression ''a'') (ValueExpression 1),
        BinaryPredicateExpression Equals (LQPColumnExpression ''a'') (ValueExpression 2)]"

definition b_is_1_or_2 :: "(string, int) expression" where
  "b_is_1_or_2 =
     LogicalExpression Or
       [BinaryPredicateExpression Equals (LQPColumnExpression ''b'') (ValueExpression 1),
        BinaryPredicateExpression Equals (LQPColumnExpression ''b'') (ValueExpression 2)]"

definition and_with_disjunction :: "(string, int) lqp" where
  "and_with_disjunction =
     PredicateNode
       (LogicalExpression And
          [a_is_1_or_2,
           BinaryPredicateExpression GreaterThanEquals
             (LQPColumnExpression ''b'') (ValueExpression 3)])
       (Some stored_table)"

definition and_of_disjunctions :: "(string, int) expression" where
  "and_of_disjunctions = LogicalExpression And [a_is_1_or_2, b_is_1_or_2]"

text \<open>A table with the single row \<open>a = 7, b = 5\<close>, as the result of the stored table node.\<close>

definition one_row_table ::
  "string \<Rightarrow> (string \<times> int) list list option \<Rightarrow> (string \<times> int) list list option
    \<Rightarrow> (string \<times> int) list list" where
  "one_row_table node_name l r = [[(''a'', 7), (''b'', 5)]]"

subsection \<open>Example tables\<close>

text \<open>
  A table with one integer column and chunks of at most two rows, and the same table
  after two chunks of one row each were appended with \<open>append_chunk\<close>.
\<close>

definition int_column :: "ColumnDefinition" where
  "int_column = \<lparr>name = ''a'', data_type = Int', nullable = False\<rparr>"

definition empty_int_table :: "int table" where
  "empty_int_table = Table [int_column] Data 2 No []"

definition two_short_chunks :: "int table" where
  "two_short_chunks =
     append_chunk [ValueSegment Int' False [Some 1]]
       (append_chunk [ValueSegment Int' False [Some 1]] empty_int_table)"

text \<open>
  The inputs of a join: a left table of one chunk with the rows 1, 1 and 2, and a right
  table of two chunks with the rows 1 and 3, and 1.
\<close>

definition left_rows :: "int table" where
  "left_rows = Table [int_column] Data 3 No [Chunk [ValueSegment Int' False [Some 1, Some 1, Some 2]] None]"

definition right_rows :: "int table" where
  "right_rows = Table [int_column] Data 2 No
     [Chunk [ValueSegment Int' False [Some 1, Some 3]] None,
      Chunk [ValueSegment Int' False [Some 1]] None]"

text \<open>
  A table of references to the rows 2 and 1 of \<open>left_rows\<close>, and a table of references
  without a chunk.
\<close>

definition referencing_rows :: "int table" where
  "referencing_rows = Table [int_column] References 3 No
     [Chunk [ReferenceSegment left_rows 0 [RowID 0 2, RowID 0 0]] None]"

definition referencing_nothing :: "int table" where
  "referencing_nothing = Table [int_column] References 3 No []"

chapter \<open>Properties\<close>

section \<open>The between composition rule\<close>

lemma reduce_boundaries_snoc:
  "reduce_boundaries st (bs @ [b]) = update_bounds (reduce_boundaries st bs) b"
  by (simp add: reduce_boundaries_def)

text \<open>
  C2. Let \<open>stored\<close> be the best bound kept after any sequence \<open>bs\<close> of boundaries of one
  column, and \<open>new\<close> the value of the next boundary \<open>b\<close>. A LowerInclusive \<open>b\<close> replaces
  the stored lower bound iff \<open>stored < new\<close>, a LowerExclusive one iff \<open>stored \<le> new\<close>; an
  UpperInclusive \<open>b\<close> replaces the stored upper bound iff \<open>stored > new\<close>, an
  UpperExclusive one iff \<open>stored \<ge> new\<close>; the bound is left as it was otherwise, and a
  replacement sets the inclusivity flag of the side to the kind of \<open>b\<close> (so a tie turns
  the kept bound exclusive). When both bounds exist after the boundaries of a column,
  one between node is emitted for it, with the condition that matches the pair of
  flags, and no other node.
\<close>

theorem boundary_reduction_relations:
  fixes st0 :: "('v::linorder) bounds"
    and bs :: "('c, 'v) ColumnBoundary list"
    and b :: "('c, 'v) ColumnBoundary"
  assumes candidate: "value_expression b = Some new"
  shows
    "(lower_bound_value_expression (reduce_boundaries st0 bs) = Some stored
        \<and> type' b = LowerBoundaryInclusive \<longrightarrow>
        reduce_boundaries st0 (bs @ [b]) =
          (if stored < new
           then (reduce_boundaries st0 bs)
                  \<lparr>lower_bound_value_expression := Some new, lower_inclusive := True\<rparr>
           else reduce_boundaries st0 bs))
     \<and> (lower_bound_value_expression (reduce_boundaries st0 bs) = Some stored
        \<and> type' b = LowerBoundaryExclusive \<longrightarrow>
        reduce_boundaries st0 (bs @ [b]) =
          (if stored \<le> new
           then (reduce_boundaries st0 bs)
                  \<lparr>lower_bound_value_expression := Some new, lower_inclusive := False\<rparr>
           else reduce_boundaries st0 bs))
     \<and> (upper_bound_value_expression (reduce_boundaries st0 bs) = Some stored
        \<and> type' b = UpperBoundaryInclusive \<longrightarrow>
        reduce_boundaries st0 (bs @ [b]) =
          (if stored > new
           then (reduce_boundaries st0 bs)
                  \<lparr>upper_bound_value_expression := Some new, upper_inclusive := True\<rparr>
           else reduce_boundaries st0 bs))
     \<and> (upper_bound_value_expression (reduce_boundaries st0 bs) = Some stored
        \<and> type' b = UpperBoundaryExclusive \<longrightarrow>
        reduce_boundaries st0 (bs @ [b]) =
          (if stored \<ge> new
           then (reduce_boundaries st0 bs)
                  \<lparr>upper_bound_value_expression := Some new, upper_inclusive := False\<rparr>
           else reduce_boundaries st0 bs))
     \<and> (\<forall>e k b0 rest lo hi c.
          lower_bound_value_expression (reduce_boundaries (best e) (b0 # rest)) = Some lo
        \<and> upper_bound_value_expression (reduce_boundaries (best e) (b0 # rest)) = Some hi
        \<and> column_expression b0 = Some (c::'c) \<longrightarrow>
          between_nodes (emit_column e (k, b0 # rest)) = between_nodes e @
            [Created (BetweenExpression (LQPColumnExpression c) (ValueExpression lo)
               (ValueExpression (hi::'v))
               (case (lower_inclusive (reduce_boundaries (best e) (b0 # rest)),
                      upper_inclusive (reduce_boundaries (best e) (b0 # rest))) of
                  (True, True) \<Rightarrow> BetweenInclusive
                | (True, False) \<Rightarrow> BetweenUpperExclusive
                | (False, True) \<Rightarrow> BetweenLowerExclusive
                | (False, False) \<Rightarrow> BetweenExclusive))]
          \<and> emitted_nodes (emit_column e (k, b0 # rest)) = emitted_nodes e)"
  using candidate
  by (auto simp: reduce_boundaries_snoc update_bounds_def replaces_def emit_column_def
      between_node_def get_between_predicate_condition_def Let_def)

text \<open>
  The theorem at \<open>a >= 5\<close> followed by \<open>a > 5\<close> (a tie, which turns the lower bound
  exclusive) and at the column with \<open>a > 5\<close> and \<open>a <= 9\<close>.
\<close>

theorem boundary_reduction_relations_witness:
  "value_expression
      \<lparr>column_expression = Some ''a'', value_expression = Some (5::int),
       type' = LowerBoundaryExclusive\<rparr> = Some 5
   \<and> lower_bound_value_expression
       (reduce_boundaries
          \<lparr>lower_bound_value_expression = None, upper_bound_value_expression = None,
           lower_inclusive = False, upper_inclusive = False\<rparr>
          [\<lparr>column_expression = Some ''a'', value_expression = Some (5::int),
            type' = LowerBoundaryInclusive\<rparr>]) = Some 5
   \<and> reduce_boundaries
        \<lparr>lower_bound_value_expression = None, upper_bound_value_expression = None,
         lower_inclusive = False, upper_inclusive = False\<rparr>
        ([\<lparr>column_expression = Some ''a'', value_expression = Some (5::int),
           type' = LowerBoundaryInclusive\<rparr>] @
         [\<lparr>column_expression = Some ''a'', value_expression = Some 5,
           type' = LowerBoundaryExclusive\<rparr>])
      = \<lparr>lower_bound_value_expression = Some 5, upper_bound_value_expression = None,
         lower_inclusive = False, upper_inclusive = False\<rparr>
   \<and> between_nodes
        (emit_column
           \<lparr>best = \<lparr>lower_bound_value_expression = None, upper_bound_value_expression = None,
                    lower_inclusive = False, upper_inclusive = False\<rparr>,
            between_nodes = [], emitted_nodes = []\<rparr>
           (''a'',
            [\<lparr>column_expression = Some ''a'', value_expression = Some (5::int),
              type' = LowerBoundaryExclusive\<rparr>,
             \<lparr>column_expression = Some ''a'', value_expression = Some 9,
              type' = UpperBoundaryInclusive\<rparr>]))
      = [Created (BetweenExpression (LQPColumnExpression ''a'') (ValueExpression 5)
           (ValueExpression 9) BetweenLowerExclusive)]"
  using boundary_reduction_relations
    [of "\<lparr>column_expression = Some ''a'', value_expression = Some (5::int),
          type' = LowerBoundaryExclusive\<rparr>" 5
        "\<lparr>lower_bound_value_expression = None, upper_bound_value_expression = None,
          lower_inclusive = False, upper_inclusive = False\<rparr>"
        "[\<lparr>column_expression = Some ''a'', value_expression = Some (5::int),
           type' = LowerBoundaryInclusive\<rparr>]" 5]
  by (simp add: reduce_boundaries_def update_bounds_def replaces_def emit_column_def
      between_node_def get_between_predicate_condition_def)

text \<open>
  C10. The chain of the single predicate node \<open>(a = 1 OR a = 2) AND (b = 1 OR b = 2)\<close>:
  the AND expression is flattened, none of its conjuncts is a binary predicate
  expression, and the node itself is not kept, so the rebuilt vector is empty and its
  \<open>back()\<close> is read out of bounds.
\<close>

theorem rebuilt_nodes_empty_for_and_of_disjunctions:
  "rebuilt_nodes [and_of_disjunctions] = []
   \<and> replace_predicates [and_of_disjunctions] = Inl OutOfRange
   \<and> apply_to 2 (PredicateNode and_of_disjunctions (Some stored_table)) = Some (Inl OutOfRange)"
  by code_simp

text \<open>
  C1. The rule turns the plan of the single predicate node
  \<open>(a = 1 OR a = 2) AND b >= 3\<close> into the plan of the single predicate node \<open>b >= 3\<close>:
  the conjunct \<open>a = 1 OR a = 2\<close> is not a binary predicate expression and is dropped.
  On the table with the single row \<open>a = 7, b = 5\<close> the first plan has no row and the
  second plan has one.
\<close>

theorem rule_drops_conjunct_of_and:
  "apply_to 2 and_with_disjunction =
     Some (Inr (PredicateNode
       (BinaryPredicateExpression GreaterThanEquals (LQPColumnExpression ''b'') (ValueExpression 3))
       (Some stored_table)))
   \<and> execute one_row_table map_of and_with_disjunction = []
   \<and> execute one_row_table map_of
        (PredicateNode
           (BinaryPredicateExpression GreaterThanEquals
              (LQPColumnExpression ''b'') (ValueExpression 3))
           (Some stored_table)) = [[(''a'', 7), (''b'', 5)]]"
  by code_simp

text \<open>
  C9, as stated, fails: the rule turns the chain \<open>a >= 1\<close>, \<open>a <= 5\<close>, \<open>b > 2\<close> into
  the chain \<open>b > 2\<close>, \<open>a BETWEEN 1 AND 5\<close>, and that chain into the chain
  \<open>a BETWEEN 1 AND 5\<close>, \<open>b > 2\<close>: the between node made by the first application is kept
  as a node by the second one and so comes before the predicate made again from the
  boundary of \<open>b\<close>.
\<close>

theorem rule_not_idempotent:
  "apply_to 3 two_sided_and_one_sided =
     Some (Inr (PredicateNode
       (BinaryPredicateExpression GreaterThan (LQPColumnExpression ''b'') (ValueExpression 2))
       (Some (PredicateNode
         (BetweenExpression (LQPColumnExpression ''a'') (ValueExpression 1) (ValueExpression 5)
            BetweenInclusive)
         (Some stored_table)))))
   \<and> apply_to 3 (PredicateNode
       (BinaryPredicateExpression GreaterThan (LQPColumnExpression ''b'') (ValueExpression 2))
       (Some (PredicateNode
         (BetweenExpression (LQPColumnExpression ''a'') (ValueExpression 1) (ValueExpression 5)
            BetweenInclusive)
         (Some stored_table)))) =
     Some (Inr (PredicateNode
       (BetweenExpression (LQPColumnExpression ''a'') (ValueExpression 1) (ValueExpression 5)
          BetweenInclusive)
       (Some (PredicateNode
         (BinaryPredicateExpression GreaterThan (LQPColumnExpression ''b'') (ValueExpression 2))
         (Some stored_table)))))
   \<and> PredicateNode
       (BinaryPredicateExpression GreaterThan (LQPColumnExpression ''b'') (ValueExpression 2))
       (Some (PredicateNode
         (BetweenExpression (LQPColumnExpression ''a'') (ValueExpression 1) (ValueExpression 5)
            BetweenInclusive)
         (Some stored_table)))
     \<noteq> PredicateNode
       (BetweenExpression (LQPColumnExpression ''a'') (ValueExpression 1) (ValueExpression 5)
          BetweenInclusive)
       (Some (PredicateNode
         (BinaryPredicateExpression GreaterThan (LQPColumnExpression ''b'') (ValueExpression 2))
         (Some (stored_table :: (string, int) lqp))))"
  by code_simp

section \<open>The column-between table scan\<close>

lemma takeWhile_sorted_index:
  assumes "sorted_wrt (<) xs" and "\<And>x y. x < y \<Longrightarrow> P y \<Longrightarrow> P x" and "i < length xs"
  shows "(i < length (takeWhile P xs)) = P (xs ! i)"
  using assms
proof (induction xs arbitrary: i)
  case Nil
  then show ?case by simp
next
  case (Cons x xs)
  show ?case
  proof (cases "P x")
    case True
    with Cons show ?thesis by (cases i) auto
  next
    case False
    have "\<not> P (( x # xs) ! i)"
    proof (cases i)
      case 0
      with False show ?thesis by simp
    next
      case (Suc j)
      with Cons.prems have "x < xs ! j" by auto
      with False Cons.prems(2) have "\<not> P (xs ! j)" by blast
      with Suc show ?thesis by simp
    qed
    with False show ?thesis by simp
  qed
qed

lemma word_range_test:
  fixes x a b :: "32 word"
  assumes "a < b"
  shows "(x - a < b - a) = (a \<le> x \<and> x < b)"
  by (metis assms diff_add_cancel order_less_imp_le plus_minus_no_overflow
    word_less_minus_cancel word_less_minus_mono_left word_sub_le_iff)

lemma sequence_map_Inr:
  "sequence (map f xs) = Inr ys \<Longrightarrow>
    length ys = length xs \<and> (\<forall>i<length xs. f (xs ! i) = Inr (ys ! i))"
proof (induction xs arbitrary: ys)
  case Nil
  then show ?case by simp
next
  case (Cons x xs)
  then show ?case
    by (auto split: sum.splits simp: nth_Cons split: nat.splits)
qed

lemma sequence_map_all_Inr:
  "(\<And>x. x \<in> set xs \<Longrightarrow> f x = Inr (g x)) \<Longrightarrow> sequence (map f xs) = Inr (map g xs)"
  by (induction xs) auto

lemma unat_value_id: "n < 2 ^ 32 \<Longrightarrow> unat (of_nat n :: ValueID) = n"
  by (simp add: unat_of_nat)

lemma with_iterators_Inr:
  "with_iterators vs null pf = Inr ps \<Longrightarrow>
    \<exists>offsets. list_all (\<lambda>offset. offset < length vs) offsets
      \<and> ps = map (\<lambda>offset. \<lparr>position_value = vs ! offset, is_null = null (vs ! offset),
                              chunk_offset = offset\<rparr>) offsets"
  by (auto simp: with_iterators_def Let_def split: if_splits)

lemma unat_INVALID_VALUE_ID: "unat INVALID_VALUE_ID = 4294967295"
  by (simp add: INVALID_VALUE_ID_def unsigned_minus_1_eq_mask mask_eq_exp_minus_1)

lemma bound_value_id_cases:
  assumes "length d < unat INVALID_VALUE_ID" and "k \<le> length d"
  shows "bound_value_id d k = (if k < length d then of_nat k else INVALID_VALUE_ID)"
    and "(if bound_value_id d k = INVALID_VALUE_ID then of_nat (length d) else bound_value_id d k)
          = (of_nat k :: ValueID)"
proof -
  have n: "length d < 2 ^ 32 - 1" using assms(1) by (simp add: unat_INVALID_VALUE_ID)
  show "bound_value_id d k = (if k < length d then of_nat k else INVALID_VALUE_ID)"
    by (simp add: bound_value_id_def)
  have "k < length d \<Longrightarrow> (of_nat k :: ValueID) \<noteq> INVALID_VALUE_ID"
  proof
    assume "k < length d" and e: "(of_nat k :: ValueID) = INVALID_VALUE_ID"
    then have "k < 2 ^ 32 - 1" using n by simp
    then have "unat (of_nat k :: ValueID) = k" by (simp add: unat_of_nat)
    moreover have "unat INVALID_VALUE_ID = 2 ^ 32 - 1" by (simp add: unat_INVALID_VALUE_ID)
    ultimately show False using e \<open>k < 2 ^ 32 - 1\<close> by simp
  qed
  then show "(if bound_value_id d k = INVALID_VALUE_ID then of_nat (length d) else bound_value_id d k)
          = (of_nat k :: ValueID)"
    using assms(2) by (auto simp: bound_value_id_def)
qed


lemma dictionary_rows:
  assumes rows: "typed_rows (DictionarySegment dt d av) = Inr rows" and i: "i < length av"
  shows "length rows = length av"
    and "(rows ! i = None) = (av ! i = of_nat (length d))"
    and "av ! i \<noteq> of_nat (length d) \<Longrightarrow>
           unat (av ! i) < length d \<and> rows ! i = Some (d ! unat (av ! i))"
proof -
  let ?f = "\<lambda>code :: ValueID. if code = of_nat (length d) then Inr None
              else if unat code < length d then Inr (Some (d ! unat code))
              else Inl OutOfRange"
  have "sequence (map ?f av) = Inr rows" using rows by simp
  from sequence_map_Inr[OF this]
  have len: "length rows = length av" and at0: "?f (av ! i) = Inr (rows ! i)"
    using i by simp_all
  note at = at0[symmetric]
  show "length rows = length av" by (rule len)
  show "(rows ! i = None) = (av ! i = of_nat (length d))"
    using at by (cases "av ! i = of_nat (length d)"; cases "unat (av ! i) < length d") simp_all
  show "av ! i \<noteq> of_nat (length d) \<Longrightarrow>
           unat (av ! i) < length d \<and> rows ! i = Some (d ! unat (av ! i))"
    using at by (cases "unat (av ! i) < length d") simp_all
qed

lemma valid_dictionary_rows:
  assumes "valid_dictionary_segment d av"
  shows "typed_rows (DictionarySegment dt d av) =
    Inr (map (\<lambda>code. if code = of_nat (length d) then None else Some (d ! unat code)) av)"
proof -
  have n: "length d < 2 ^ 32"
    using assms by (simp add: valid_dictionary_segment_def unat_INVALID_VALUE_ID)
  have "\<And>code. code \<in> set av \<Longrightarrow>
      (if code = of_nat (length d) then Inr None
       else if unat code < length d then Inr (Some (d ! unat code)) else Inl OutOfRange)
      = Inr (if code = of_nat (length d) then None else Some (d ! unat code))"
  proof -
    fix code :: ValueID
    assume "code \<in> set av"
    then have le: "unat code \<le> length d"
      using assms by (simp add: valid_dictionary_segment_def list_all_iff)
    have "code \<noteq> of_nat (length d) \<Longrightarrow> unat code < length d"
    proof -
      assume ne: "code \<noteq> of_nat (length d)"
      have "unat code \<noteq> length d"
      proof
        assume "unat code = length d"
        then have "of_nat (unat code) = (of_nat (length d) :: ValueID)" by simp
        with ne show False by simp
      qed
      with le show ?thesis by simp
    qed
    then show "(if code = of_nat (length d) then Inr None
       else if unat code < length d then Inr (Some (d ! unat code)) else Inl OutOfRange)
      = Inr (if code = of_nat (length d) then None else Some (d ! unat code))"
      by simp
  qed
  then show ?thesis by (simp add: sequence_map_all_Inr)
qed


lemma lower_bound_index:
  assumes "sorted_wrt (<) (d :: ('v::linorder) list)"
  shows "\<forall>i<length d. (length (takeWhile (\<lambda>e. e < x) d) \<le> i) = (x \<le> d ! i)"
proof (intro allI impI)
  fix i assume "i < length d"
  from takeWhile_sorted_index[OF assms, of "\<lambda>e. e < x" i] this
  have "(i < length (takeWhile (\<lambda>e. e < x) d)) = (d ! i < x)" by auto
  then show "(length (takeWhile (\<lambda>e. e < x) d) \<le> i) = (x \<le> d ! i)" by auto
qed

lemma upper_bound_index:
  assumes "sorted_wrt (<) (d :: ('v::linorder) list)"
  shows "\<forall>i<length d. (length (takeWhile (\<lambda>e. e \<le> x) d) \<le> i) = (x < d ! i)"
proof (intro allI impI)
  fix i assume "i < length d"
  from takeWhile_sorted_index[OF assms, of "\<lambda>e. e \<le> x" i] this
  have "(i < length (takeWhile (\<lambda>e. e \<le> x) d)) = (d ! i \<le> x)" by auto
  then show "(length (takeWhile (\<lambda>e. e \<le> x) d) \<le> i) = (x < d ! i)" by auto
qed

lemma value_ids_as_indices:
  fixes d :: "('v::linorder) list"
  assumes srt: "sorted_wrt (<) d" and n: "length d < unat INVALID_VALUE_ID"
    and l: "left_value scan = Some l" and r: "right_value scan = Some r"
    and pc: "with_comparator_between (predicate_condition scan) = Some cmp"
  shows "\<exists>kl kr. kl \<le> length d \<and> kr \<le> length d
     \<and> left_value_id scan d = (if kl < length d then of_nat kl else INVALID_VALUE_ID)
     \<and> right_value_id scan d = of_nat kr
     \<and> (\<forall>i<length d. cmp (d ! i) l r = (kl \<le> i \<and> i < kr))"
proof -
  let ?ll = "length (takeWhile (\<lambda>e. e < l) d)" and ?lu = "length (takeWhile (\<lambda>e. e \<le> l) d)"
  let ?rl = "length (takeWhile (\<lambda>e. e < r) d)" and ?ru = "length (takeWhile (\<lambda>e. e \<le> r) d)"
  have len: "?ll \<le> length d" "?lu \<le> length d" "?rl \<le> length d" "?ru \<le> length d"
    by (simp_all add: length_takeWhile_le)
  note b = bound_value_id_cases[OF n]
  note li = lower_bound_index[OF srt] and ui = upper_bound_index[OF srt]
  consider "predicate_condition scan = BetweenInclusive"
    | "predicate_condition scan = BetweenLowerExclusive"
    | "predicate_condition scan = BetweenUpperExclusive"
    | "predicate_condition scan = BetweenExclusive"
    using pc by (cases "predicate_condition scan") simp_all
  then show ?thesis
  proof cases
    case 1
    then have cmp: "cmp = (\<lambda>x lo hi. lo \<le> x \<and> x \<le> hi)" using pc by simp
    have "left_value_id scan d = (if ?ll < length d then of_nat ?ll else INVALID_VALUE_ID)"
      using 1 l b(1)[OF len(1)]
      by (simp add: left_value_id_def lower_bound_def
          is_between_predicate_condition_lower_inclusive_def)
    moreover have "right_value_id scan d = of_nat ?ru"
      using 1 r b(2)[OF len(4)]
      by (simp add: right_value_id_def upper_bound_def Let_def
          is_between_predicate_condition_upper_inclusive_def)
    moreover have "\<forall>i<length d. cmp (d ! i) l r = (?ll \<le> i \<and> i < ?ru)"
      using li[of l] ui[of r] cmp by auto
    ultimately show ?thesis using len by blast
  next
    case 2
    then have cmp: "cmp = (\<lambda>x lo hi. lo < x \<and> x \<le> hi)" using pc by simp
    have "left_value_id scan d = (if ?lu < length d then of_nat ?lu else INVALID_VALUE_ID)"
      using 2 l b(1)[OF len(2)]
      by (simp add: left_value_id_def upper_bound_def
          is_between_predicate_condition_lower_inclusive_def)
    moreover have "right_value_id scan d = of_nat ?ru"
      using 2 r b(2)[OF len(4)]
      by (simp add: right_value_id_def upper_bound_def Let_def
          is_between_predicate_condition_upper_inclusive_def)
    moreover have "\<forall>i<length d. cmp (d ! i) l r = (?lu \<le> i \<and> i < ?ru)"
      using ui[of l] ui[of r] cmp by auto
    ultimately show ?thesis using len by blast
  next
    case 3
    then have cmp: "cmp = (\<lambda>x lo hi. lo \<le> x \<and> x < hi)" using pc by simp
    have "left_value_id scan d = (if ?ll < length d then of_nat ?ll else INVALID_VALUE_ID)"
      using 3 l b(1)[OF len(1)]
      by (simp add: left_value_id_def lower_bound_def
          is_between_predicate_condition_lower_inclusive_def)
    moreover have "right_value_id scan d = of_nat ?rl"
      using 3 r b(2)[OF len(3)]
      by (simp add: right_value_id_def lower_bound_def Let_def
          is_between_predicate_condition_upper_inclusive_def)
    moreover have "\<forall>i<length d. cmp (d ! i) l r = (?ll \<le> i \<and> i < ?rl)"
      using li[of l] li[of r] cmp by auto
    ultimately show ?thesis using len by blast
  next
    case 4
    then have cmp: "cmp = (\<lambda>x lo hi. lo < x \<and> x < hi)" using pc by simp
    have "left_value_id scan d = (if ?lu < length d then of_nat ?lu else INVALID_VALUE_ID)"
      using 4 l b(1)[OF len(2)]
      by (simp add: left_value_id_def upper_bound_def
          is_between_predicate_condition_lower_inclusive_def)
    moreover have "right_value_id scan d = of_nat ?rl"
      using 4 r b(2)[OF len(3)]
      by (simp add: right_value_id_def lower_bound_def Let_def
          is_between_predicate_condition_upper_inclusive_def)
    moreover have "\<forall>i<length d. cmp (d ! i) l r = (?lu \<le> i \<and> i < ?rl)"
      using ui[of l] li[of r] cmp by auto
    ultimately show ?thesis using len by blast
  qed
qed


lemma dictionary_code_test:
  fixes code :: ValueID
  assumes n: "n < unat INVALID_VALUE_ID" and kl: "kl \<le> n" and kr: "kr \<le> n"
    and code: "unat code \<le> n"
  shows "(if (if kl < n then of_nat kl else INVALID_VALUE_ID) = (0 :: ValueID)
             \<and> (of_nat kr :: ValueID) = of_nat n
          then code \<noteq> of_nat n
          else if (if kl < n then of_nat kl else INVALID_VALUE_ID) = INVALID_VALUE_ID
                  \<or> (if kl < n then of_nat kl else INVALID_VALUE_ID) \<ge> (of_nat n :: ValueID)
                  \<or> (if kl < n then of_nat kl else INVALID_VALUE_ID) \<ge> (of_nat kr :: ValueID)
          then False
          else code - (if kl < n then of_nat kl else INVALID_VALUE_ID)
                 < of_nat kr - (if kl < n then of_nat kl else INVALID_VALUE_ID))
        = (code \<noteq> of_nat n \<and> kl \<le> unat code \<and> unat code < kr)"
proof -
  have n32: "n < 2 ^ 32" using n by (simp add: unat_INVALID_VALUE_ID)
  have un: "unat (of_nat n :: ValueID) = n" using n32 by (simp add: unat_of_nat)
  have ukr: "unat (of_nat kr :: ValueID) = kr" using n32 kr by (simp add: unat_of_nat)
  have ukl: "unat (of_nat kl :: ValueID) = kl" using n32 kl by (simp add: unat_of_nat)
  have cn: "(code \<noteq> of_nat n) = (unat code < n)"
    using code un by (auto simp: word_unat_eq_iff)
  show ?thesis
  proof (cases "kl < n")
    case False
    then have "kl = n" using kl by simp
    moreover have "INVALID_VALUE_ID \<noteq> (0 :: ValueID)"
      using unat_INVALID_VALUE_ID by (auto simp: word_unat_eq_iff)
    ultimately show ?thesis using cn by auto
  next
    case True
    have inv: "(of_nat kl :: ValueID) \<noteq> INVALID_VALUE_ID"
      using ukl n True by (auto simp: word_unat_eq_iff)
    have z: "((of_nat kl :: ValueID) = 0) = (kl = 0)"
      using ukl by (auto simp: word_unat_eq_iff)
    have e: "((of_nat kr :: ValueID) = of_nat n) = (kr = n)"
      using ukr un by (auto simp: word_unat_eq_iff)
    have ge1: "\<not> (of_nat n :: ValueID) \<le> of_nat kl"
      using True ukl un by (simp add: word_le_nat_alt)
    have ge2: "((of_nat kr :: ValueID) \<le> of_nat kl) = (kr \<le> kl)"
      using ukl ukr by (simp add: word_le_nat_alt)
    show ?thesis
    proof (cases "kl = 0 \<and> kr = n")
      case a: True
      then show ?thesis using True z e cn by auto
    next
      case b: False
      show ?thesis
      proof (cases "kr \<le> kl")
        case c: True
        then show ?thesis using True b z e inv ge1 ge2 by auto
      next
        case c: False
        then have lt: "(of_nat kl :: ValueID) < of_nat kr"
          using ukl ukr by (simp add: word_less_nat_alt)
        have "(code - of_nat kl < (of_nat kr :: ValueID) - of_nat kl)
               = (kl \<le> unat code \<and> unat code < kr)"
          using word_range_test[OF lt, of code] ukl ukr
          by (simp add: word_le_nat_alt word_less_nat_alt)
        moreover have "unat code < kr \<Longrightarrow> unat code < n" using kr by simp
        ultimately show ?thesis using True b c z e inv ge1 ge2 cn by auto
      qed
    qed
  qed
qed


lemma with_iterators_valid:
  assumes "valid_position_filter n pf" and "length vs = n"
  shows "with_iterators vs null pf =
    Inr (map (\<lambda>offset. \<lparr>position_value = vs ! offset, is_null = null (vs ! offset),
                          chunk_offset = offset\<rparr>)
          (case pf of None \<Rightarrow> [0..<n] | Some f \<Rightarrow> f))"
  using assms
  by (cases pf) (simp_all add: with_iterators_def valid_position_filter_def list_all_iff)

lemma scan_with_iterators_map:
  "scan_with_iterators check func
     (map (\<lambda>offset. \<lparr>position_value = vs ! offset, is_null = null (vs ! offset),
                       chunk_offset = offset\<rparr>) offsets) chunk_id matches
   = matches @ map (RowID chunk_id)
       (filter (\<lambda>offset. (\<not> check \<or> \<not> null (vs ! offset))
          \<and> func \<lparr>position_value = vs ! offset, is_null = null (vs ! offset),
                   chunk_offset = offset\<rparr>) offsets)"
  by (simp add: scan_with_iterators_def filter_map o_def)

lemma valid_filter_offsets:
  assumes "valid_position_filter n pf"
    and "offset \<in> set (case pf of None \<Rightarrow> [0..<n] | Some f \<Rightarrow> f)"
  shows "offset < n"
  using assms by (cases pf) (auto simp: valid_position_filter_def list_all_iff)


text \<open>
  C3. For every dictionary segment (sorted dictionary of unique entries, codes of
  entries or of NULL), every pair of bounds that are not NULL, every between condition
  and every position filter within the segment, the dictionary path (value ids,
  all-match shortcut, no-match shortcut, unsigned test
  \<open>code - left_id < right_id - left_id\<close>) returns the position list that the generic
  path returns for the segment, in the same order; both paths return a list.
\<close>

theorem dictionary_scan_equals_generic_scan:
  fixes dictionary :: "('v::linorder) list"
  assumes valid: "valid_dictionary_segment dictionary attribute_vector"
    and l: "left_value scan \<noteq> None" and r: "right_value scan \<noteq> None"
    and pc: "is_between_predicate_condition (predicate_condition scan)"
    and pf: "valid_position_filter (length attribute_vector) position_filter"
  shows "scan_dictionary_segment scan dictionary attribute_vector chunk_id matches
           position_filter
         = scan_generic_segment scan (DictionarySegment dt dictionary attribute_vector)
             chunk_id matches position_filter
       \<and> (\<exists>positions. scan_dictionary_segment scan dictionary attribute_vector chunk_id
             matches position_filter = Inr (matches @ positions))"
proof -
  let ?d = dictionary and ?av = attribute_vector
  let ?N = "of_nat (length ?d) :: ValueID"
  let ?offs = "case position_filter of None \<Rightarrow> [0..<length ?av] | Some f \<Rightarrow> f"
  obtain lv rv where lv: "left_value scan = Some lv" and rv: "right_value scan = Some rv"
    using l r by auto
  obtain cmp :: "'v \<Rightarrow> 'v \<Rightarrow> 'v \<Rightarrow> bool"
    where cmp: "with_comparator_between (predicate_condition scan) = Some cmp"
    using pc by (auto simp: is_between_predicate_condition_def)
  have srt: "sorted_wrt (<) ?d" and n: "length ?d < unat INVALID_VALUE_ID"
    and codes: "\<And>code. code \<in> set ?av \<Longrightarrow> unat code \<le> length ?d"
    using valid by (auto simp: valid_dictionary_segment_def list_all_iff)
  from value_ids_as_indices[OF srt n lv rv cmp]
  obtain kl kr where kl: "kl \<le> length ?d" and kr: "kr \<le> length ?d"
    and L: "left_value_id scan ?d = (if kl < length ?d then of_nat kl else INVALID_VALUE_ID)"
    and R: "right_value_id scan ?d = of_nat kr"
    and C: "\<forall>i<length ?d. cmp (?d ! i) lv rv = (kl \<le> i \<and> i < kr)"
    by blast
  let ?L = "left_value_id scan ?d" and ?R = "right_value_id scan ?d"
  let ?T = "\<lambda>code :: ValueID.
     if ?L = 0 \<and> ?R = ?N then code \<noteq> ?N
     else if ?L = INVALID_VALUE_ID \<or> ?L \<ge> ?N \<or> ?L \<ge> ?R then False
     else code - ?L < ?R - ?L"
  have dict: "scan_dictionary_segment scan ?d ?av chunk_id matches position_filter
      = Inr (matches @ map (RowID chunk_id) (filter (\<lambda>offset. ?T (?av ! offset)) ?offs))"
    by (auto simp: scan_dictionary_segment_def Let_def attribute_vector_with_iterators_def
        with_iterators_valid[OF pf refl] scan_with_iterators_def filter_map o_def
        intro!: filter_cong)
  define rows where
    "rows = map (\<lambda>code. if code = ?N then None else Some (?d ! unat code)) ?av"
  have rows: "typed_rows (DictionarySegment dt ?d ?av) = Inr rows"
    unfolding rows_def by (rule valid_dictionary_rows[OF valid])
  have len: "length rows = length ?av" by (simp add: rows_def)
  have gen: "scan_generic_segment scan (DictionarySegment dt ?d ?av) chunk_id matches
        position_filter
      = Inr (matches @ map (RowID chunk_id)
          (filter (\<lambda>offset. rows ! offset \<noteq> None
             \<and> (case rows ! offset of Some x \<Rightarrow> cmp x lv rv | None \<Rightarrow> False)) ?offs))"
    unfolding scan_generic_segment_def segment_with_iterators_filtered_def rows
    by (simp add: with_iterators_valid[OF pf len] lv rv cmp scan_with_iterators_def
        filter_map o_def)
  have same: "filter (\<lambda>offset. ?T (?av ! offset)) ?offs
      = filter (\<lambda>offset. rows ! offset \<noteq> None
             \<and> (case rows ! offset of Some x \<Rightarrow> cmp x lv rv | None \<Rightarrow> False)) ?offs"
  proof (rule filter_cong[OF refl])
    fix offset assume "offset \<in> set ?offs"
    then have o: "offset < length ?av" by (rule valid_filter_offsets[OF pf])
    then have c: "unat (?av ! offset) \<le> length ?d" using codes by simp
    have ne: "?av ! offset \<noteq> ?N \<Longrightarrow> unat (?av ! offset) < length ?d"
    proof -
      assume a: "?av ! offset \<noteq> ?N"
      have "unat (?av ! offset) \<noteq> length ?d"
      proof
        assume "unat (?av ! offset) = length ?d"
        then have "of_nat (unat (?av ! offset)) = ?N" by simp
        with a show False by simp
      qed
      with c show ?thesis by simp
    qed
    have t: "?T (?av ! offset)
        = (?av ! offset \<noteq> ?N \<and> kl \<le> unat (?av ! offset) \<and> unat (?av ! offset) < kr)"
      unfolding L R by (rule dictionary_code_test[OF n kl kr c])
    have row: "rows ! offset
        = (if ?av ! offset = ?N then None else Some (?d ! unat (?av ! offset)))"
      using o by (simp add: rows_def)
    show "?T (?av ! offset)
      = (rows ! offset \<noteq> None
         \<and> (case rows ! offset of Some x \<Rightarrow> cmp x lv rv | None \<Rightarrow> False))"
      unfolding t row using ne C by auto
  qed
  show ?thesis unfolding dict gen same by simp
qed


text \<open>
  The theorem at the dictionary \<open>[1, 2, 3]\<close> with the codes \<open>[0, 1, 2, 0]\<close> and the scan
  \<open>BetweenInclusive(0, 4)\<close>: all four offsets match.
\<close>

theorem dictionary_scan_equals_generic_scan_witness:
  "valid_dictionary_segment [1, 2, 3 :: int] [0, 1, 2, 0]
   \<and> left_value \<lparr>predicate_condition = BetweenInclusive, left_value = Some (0::int),
                  right_value = Some 4\<rparr> \<noteq> None
   \<and> right_value \<lparr>predicate_condition = BetweenInclusive, left_value = Some (0::int),
                   right_value = Some 4\<rparr> \<noteq> None
   \<and> is_between_predicate_condition BetweenInclusive
   \<and> valid_position_filter (length [0, 1, 2, 0 :: ValueID]) None
   \<and> scan_dictionary_segment
        \<lparr>predicate_condition = BetweenInclusive, left_value = Some (0::int),
         right_value = Some 4\<rparr> [1, 2, 3] [0, 1, 2, 0] 0 [] None
      = scan_generic_segment
         \<lparr>predicate_condition = BetweenInclusive, left_value = Some (0::int),
          right_value = Some 4\<rparr> (DictionarySegment Int' [1, 2, 3] [0, 1, 2, 0]) 0 [] None
   \<and> scan_dictionary_segment
        \<lparr>predicate_condition = BetweenInclusive, left_value = Some (0::int),
         right_value = Some 4\<rparr> [1, 2, 3] [0, 1, 2, 0] 0 [] None
      = Inr [RowID 0 0, RowID 0 1, RowID 0 2, RowID 0 3]"
proof -
  have v: "valid_dictionary_segment [1, 2, 3 :: int] [0, 1, 2, 0]"
    by (simp add: valid_dictionary_segment_def unat_INVALID_VALUE_ID)
  have f: "valid_position_filter (length [0, 1, 2, 0 :: ValueID]) None"
    by (simp add: valid_position_filter_def)
  have b: "is_between_predicate_condition BetweenInclusive"
    by (simp add: is_between_predicate_condition_def)
  have e: "scan_dictionary_segment
        \<lparr>predicate_condition = BetweenInclusive, left_value = Some (0::int),
         right_value = Some 4\<rparr> [1, 2, 3] [0, 1, 2, 0] 0 [] None
      = Inr [RowID 0 0, RowID 0 1, RowID 0 2, RowID 0 3]"
    by code_simp
  show ?thesis
    using dictionary_scan_equals_generic_scan
      [of "[1, 2, 3 :: int]" "[0, 1, 2, 0]"
          "\<lparr>predicate_condition = BetweenInclusive, left_value = Some (0::int),
            right_value = Some 4\<rparr>" None 0 "[]" Int'] v f b e
    by simp
qed

lemma right_value_id_le:
  assumes "length d < 2 ^ 32"
  shows "right_value_id scan d \<le> of_nat (length d)"
proof -
  have "\<And>k. bound_value_id d k \<noteq> INVALID_VALUE_ID \<Longrightarrow>
          bound_value_id d k \<le> of_nat (length d)"
  proof -
    fix k assume "bound_value_id d k \<noteq> INVALID_VALUE_ID"
    then have k: "k < length d" and b: "bound_value_id d k = of_nat k"
      by (auto simp: bound_value_id_def split: if_splits)
    have "unat (of_nat k :: ValueID) = k" "unat (of_nat (length d) :: ValueID) = length d"
      using k assms by (simp_all add: unat_of_nat)
    then show "bound_value_id d k \<le> of_nat (length d)"
      using k b by (simp add: word_le_nat_alt)
  qed
  then show ?thesis
    by (auto simp: right_value_id_def Let_def lower_bound_def upper_bound_def
        split: option.splits)
qed

text \<open>
  C7. If the lower or the upper constant of a between scan is NULL, the scan of a
  segment appends nothing to the matches. And whatever the constants, every position a
  scan of a segment appends is a position of the scanned chunk whose row is not NULL,
  on the generic path and on the dictionary path.
\<close>

theorem between_scan_null_semantics:
  fixes scan :: "('v::linorder) ColumnBetweenTableScanImpl"
  shows
  "(left_value scan = None \<or> right_value scan = None \<longrightarrow>
      scan_non_reference_segment scan segment chunk_id matches position_filter = Inr matches)
   \<and> (unique_values_fit segment \<and> typed_rows segment = Inr rows
       \<and> scan_non_reference_segment scan segment chunk_id matches position_filter = Inr result
      \<longrightarrow> (\<exists>offsets. result = matches @ map (RowID chunk_id) offsets
            \<and> list_all (\<lambda>offset. offset < length rows \<and> rows ! offset \<noteq> None) offsets))"
proof (intro conjI impI)
  assume "left_value scan = None \<or> right_value scan = None"
  then show "scan_non_reference_segment scan segment chunk_id matches position_filter
      = Inr matches"
    by (auto simp: scan_non_reference_segment_def)
next
  assume a: "unique_values_fit segment \<and> typed_rows segment = Inr rows
       \<and> scan_non_reference_segment scan segment chunk_id matches position_filter = Inr result"
  then have fit: "unique_values_fit segment" and rows: "typed_rows segment = Inr rows"
    and res: "scan_non_reference_segment scan segment chunk_id matches position_filter
        = Inr result" by simp_all
  let ?goal = "\<exists>offsets. result = matches @ map (RowID chunk_id) offsets
            \<and> list_all (\<lambda>offset. offset < length rows \<and> rows ! offset \<noteq> None) offsets"
  have nothing: "\<exists>offsets. matches = matches @ map (RowID chunk_id) offsets
            \<and> list_all (\<lambda>offset. offset < length rows \<and> rows ! offset \<noteq> None) offsets"
    by (intro exI[of _ "[]"]) simp
  show ?goal
  proof (cases "left_value scan = None \<or> right_value scan = None")
    case True
    then have "result = matches" using res by (auto simp: scan_non_reference_segment_def)
    then show ?thesis using nothing by simp
  next
    case False
    have generic: ?goal
      if g: "scan_generic_segment scan segment chunk_id matches position_filter = Inr result"
    proof -
      from g rows obtain positions where
        p: "with_iterators rows (\<lambda>v. v = None) position_filter = Inr positions"
        by (auto simp: scan_generic_segment_def segment_with_iterators_filtered_def
            split: sum.splits)
      from with_iterators_Inr[OF p] obtain offsets where
        o: "list_all (\<lambda>offset. offset < length rows) offsets"
        and ps: "positions = map (\<lambda>offset. \<lparr>position_value = rows ! offset,
             is_null = (rows ! offset = None), chunk_offset = offset\<rparr>) offsets"
        by blast
      from g rows p obtain func where
        "result = scan_with_iterators True func positions chunk_id matches"
        by (auto simp: scan_generic_segment_def segment_with_iterators_filtered_def
            split: sum.splits option.splits)
      then have "result = matches @ map (RowID chunk_id)
          (filter (\<lambda>offset. rows ! offset \<noteq> None
             \<and> func \<lparr>position_value = rows ! offset, is_null = (rows ! offset = None),
                      chunk_offset = offset\<rparr>) offsets)"
        unfolding ps by (simp add: scan_with_iterators_def filter_map o_def)
      moreover have "list_all (\<lambda>offset. offset < length rows \<and> rows ! offset \<noteq> None)
          (filter (\<lambda>offset. rows ! offset \<noteq> None
             \<and> func \<lparr>position_value = rows ! offset, is_null = (rows ! offset = None),
                      chunk_offset = offset\<rparr>) offsets)"
        using o by (auto simp: list_all_iff)
      ultimately show ?thesis by blast
    qed
    show ?thesis
    proof (cases segment)
      case (ValueSegment dt nl vs)
      then show ?thesis using res False generic
        by (simp add: scan_non_reference_segment_def)
    next
      case (ReferenceSegment t c pl)
      then show ?thesis using res False generic
        by (simp add: scan_non_reference_segment_def)
    next
      case (DictionarySegment dt d av)
      let ?N = "of_nat (length d) :: ValueID"
      let ?L = "left_value_id scan d" and ?R = "right_value_id scan d"
      have n: "length d < 2 ^ 32" using fit DictionarySegment by simp
      have dres: "scan_dictionary_segment scan d av chunk_id matches position_filter
          = Inr result"
        using res False DictionarySegment by (simp add: scan_non_reference_segment_def)
      have drows: "typed_rows (DictionarySegment dt d av) = Inr rows"
        using rows DictionarySegment by simp
      have len: "length rows = length av"
      proof -
        have "sequence (map (\<lambda>code :: ValueID. if code = of_nat (length d) then Inr None
              else if unat code < length d then Inr (Some (d ! unat code))
              else Inl OutOfRange) av) = Inr rows" using drows by simp
        from sequence_map_Inr[OF this] show ?thesis by simp
      qed
      show ?thesis
      proof (cases "?L = 0 \<and> ?R = ?N")
        case True
        with dres obtain positions where
          p: "with_iterators av (\<lambda>code. code = ?N) position_filter = Inr positions"
          and r: "result = scan_with_iterators True (\<lambda>position. True) positions chunk_id matches"
          by (auto simp: scan_dictionary_segment_def Let_def
              attribute_vector_with_iterators_def split: sum.splits)
        from with_iterators_Inr[OF p] obtain offsets where
          o: "list_all (\<lambda>offset. offset < length av) offsets"
          and ps: "positions = map (\<lambda>offset. \<lparr>position_value = av ! offset,
             is_null = (av ! offset = ?N), chunk_offset = offset\<rparr>) offsets"
          by blast
        have "result = matches @ map (RowID chunk_id)
            (filter (\<lambda>offset. av ! offset \<noteq> ?N) offsets)"
          unfolding r ps by (simp add: scan_with_iterators_def filter_map o_def)
        moreover have "list_all (\<lambda>offset. offset < length rows \<and> rows ! offset \<noteq> None)
            (filter (\<lambda>offset. av ! offset \<noteq> ?N) offsets)"
          using o dictionary_rows(2)[OF drows] len by (auto simp: list_all_iff)
        ultimately show ?thesis by blast
      next
        case nall: False
        show ?thesis
        proof (cases "?L = INVALID_VALUE_ID \<or> ?L \<ge> ?N \<or> ?L \<ge> ?R")
          case True
          then have "result = matches" using dres nall
            by (auto simp: scan_dictionary_segment_def Let_def)
          then show ?thesis using nothing by simp
        next
          case False
          then have lt: "?L < ?R" by (simp add: not_le)
          from dres nall False obtain positions where
            p: "with_iterators av (\<lambda>code. code = ?N) position_filter = Inr positions"
            and r: "result = scan_with_iterators False
                (\<lambda>position. position_value position - ?L < ?R - ?L) positions chunk_id matches"
            by (auto simp: scan_dictionary_segment_def Let_def
                attribute_vector_with_iterators_def split: sum.splits)
          from with_iterators_Inr[OF p] obtain offsets where
            o: "list_all (\<lambda>offset. offset < length av) offsets"
            and ps: "positions = map (\<lambda>offset. \<lparr>position_value = av ! offset,
               is_null = (av ! offset = ?N), chunk_offset = offset\<rparr>) offsets"
            by blast
          have res': "result = matches @ map (RowID chunk_id)
              (filter (\<lambda>offset. av ! offset - ?L < ?R - ?L) offsets)"
            unfolding r ps by (simp add: scan_with_iterators_def filter_map o_def)
          have "\<And>code. code - ?L < ?R - ?L \<Longrightarrow> code \<noteq> ?N"
          proof
            fix code assume "code - ?L < ?R - ?L" and "code = ?N"
            then have "?N < ?R" using word_range_test[OF lt, of code] by simp
            with right_value_id_le[OF n, of scan] show False by simp
          qed
          then have "list_all (\<lambda>offset. offset < length rows \<and> rows ! offset \<noteq> None)
              (filter (\<lambda>offset. av ! offset - ?L < ?R - ?L) offsets)"
            using o dictionary_rows(2)[OF drows] len by (auto simp: list_all_iff)
          with res' show ?thesis by blast
        qed
      qed
    qed
  qed
qed


text \<open>
  The theorem at the dictionary \<open>[1, 2, 3]\<close> with the codes \<open>[0, 3, 2, 0]\<close>, whose second
  row is NULL: with a NULL lower constant nothing is found, and \<open>BetweenInclusive(0, 4)\<close>
  finds the three rows that are not NULL.
\<close>

theorem between_scan_null_semantics_witness:
  "(left_value \<lparr>predicate_condition = BetweenInclusive, left_value = None,
                  right_value = Some (4::int)\<rparr> = None
      \<or> right_value \<lparr>predicate_condition = BetweenInclusive, left_value = None,
                  right_value = Some (4::int)\<rparr> = None)
   \<and> scan_non_reference_segment
        \<lparr>predicate_condition = BetweenInclusive, left_value = None, right_value = Some (4::int)\<rparr>
        (DictionarySegment Int' [1, 2, 3] [0, 3, 2, 0]) 0 [] None = Inr []
   \<and> unique_values_fit (DictionarySegment Int' [1, 2, 3 :: int] [0, 3, 2, 0])
   \<and> typed_rows (DictionarySegment Int' [1, 2, 3 :: int] [0, 3, 2, 0])
       = Inr [Some 1, None, Some 3, Some 1]
   \<and> scan_non_reference_segment
        \<lparr>predicate_condition = BetweenInclusive, left_value = Some 0, right_value = Some (4::int)\<rparr>
        (DictionarySegment Int' [1, 2, 3] [0, 3, 2, 0]) 0 [] None
       = Inr [RowID 0 0, RowID 0 2, RowID 0 3]
   \<and> (\<exists>offsets. [RowID 0 0, RowID 0 2, RowID 0 3] = [] @ map (RowID 0) offsets
        \<and> list_all (\<lambda>offset. offset < length [Some (1::int), None, Some 3, Some 1]
              \<and> [Some (1::int), None, Some 3, Some 1] ! offset \<noteq> None) offsets)"
proof -
  have f: "unique_values_fit (DictionarySegment Int' [1, 2, 3 :: int] [0, 3, 2, 0])"
    by simp
  have r: "typed_rows (DictionarySegment Int' [1, 2, 3 :: int] [0, 3, 2, 0])
       = Inr [Some 1, None, Some 3, Some 1]"
    by code_simp
  have s: "scan_non_reference_segment
        \<lparr>predicate_condition = BetweenInclusive, left_value = Some 0, right_value = Some (4::int)\<rparr>
        (DictionarySegment Int' [1, 2, 3] [0, 3, 2, 0]) 0 [] None
       = Inr [RowID 0 0, RowID 0 2, RowID 0 3]"
    by code_simp
  show ?thesis
    using between_scan_null_semantics
      [of "\<lparr>predicate_condition = BetweenInclusive, left_value = None,
            right_value = Some (4::int)\<rparr>"
          "DictionarySegment Int' [1, 2, 3] [0, 3, 2, 0]" 0 "[]" None
          "[Some 1, None, Some 3, Some 1]" "[]"]
      between_scan_null_semantics
      [of "\<lparr>predicate_condition = BetweenInclusive, left_value = Some 0,
            right_value = Some (4::int)\<rparr>"
          "DictionarySegment Int' [1, 2, 3] [0, 3, 2, 0]" 0 "[]" None
          "[Some 1, None, Some 3, Some 1]" "[RowID 0 0, RowID 0 2, RowID 0 3]"]
      f r s
    by simp
qed

section \<open>Table\<close>

lemma row_count_sum: "row_count t = of_nat (sum_list (map chunk_size (chunks t)))"
proof -
  have "\<And>acc. foldl (\<lambda>ret c. ret + of_nat (chunk_size c)) acc cs
      = acc + (of_nat (sum_list (map chunk_size cs)) :: 64 word)" for cs :: "'a chunk list"
    by (induction cs) (simp_all add: algebra_simps)
  then show ?thesis by (simp add: row_count_def)
qed

lemma chunk_append_size:
  assumes "chunk_append row c = Inr c'"
  shows "chunk_size c' = (if segments c = [] then 0 else Suc (chunk_size c))"
proof (cases "segments c")
  case Nil
  then show ?thesis using assms
    by (auto simp: chunk_append_def chunk_size_def split: if_splits sum.splits)
next
  case (Cons s ss)
  then obtain v vs where row: "row = v # vs" using assms
    by (cases row) (auto simp: chunk_append_def split: if_splits)
  from assms Cons row obtain s' ss' where "segment_append v s = Inr s'"
    and "segments c' = s' # ss'"
    by (auto simp: chunk_append_def split: if_splits sum.splits)
  moreover from this(1) have "segment_size s' = Suc (segment_size s)"
    by (cases s) (auto split: if_splits)
  ultimately show ?thesis using Cons by (simp add: chunk_size_def)
qed


lemma construct_table_filled:
  "construct_table defs ty mcs mvcc = Inr t \<Longrightarrow> chunks_filled t \<and> max_chunk_size t = mcs"
  by (auto simp: construct_table_def chunks_filled_def word_less_nat_alt split: if_splits)

lemma append_mutable_chunk_fields:
  "chunks (append_mutable_chunk t) = chunks t @ [last (chunks (append_mutable_chunk t))]"
  "chunk_size (last (chunks (append_mutable_chunk t))) = 0"
  "max_chunk_size (append_mutable_chunk t) = max_chunk_size t"
  by (cases "column_definitions t";
      simp add: append_mutable_chunk_def append_chunk_def Let_def chunk_size_def)+

lemma append_filled:
  assumes inv: "chunks_filled t" and app: "append' row t = Inr t'"
  shows "chunks_filled t' \<and> max_chunk_size t' = max_chunk_size t"
proof -
  let ?m = "unat (max_chunk_size t)"
  let ?t1 = "if chunks t = [] \<or> chunk_size (last (chunks t)) \<ge> ?m
             then append_mutable_chunk t else t"
  have m: "0 < ?m" and full: "list_all (\<lambda>c. chunk_size c = ?m) (butlast (chunks t))"
    and lastle: "chunks t = [] \<or> chunk_size (last (chunks t)) \<le> ?m"
    using inv by (simp_all add: chunks_filled_def)
  have t1: "chunks ?t1 \<noteq> [] \<and> max_chunk_size ?t1 = max_chunk_size t
      \<and> list_all (\<lambda>c. chunk_size c = ?m) (butlast (chunks ?t1))
      \<and> chunk_size (last (chunks ?t1)) < ?m"
  proof (cases "chunks t = [] \<or> chunk_size (last (chunks t)) \<ge> ?m")
    case True
    let ?c = "last (chunks (append_mutable_chunk t))"
    have ch: "chunks (append_mutable_chunk t) = chunks t @ [?c]"
      and sz: "chunk_size ?c = 0"
      and mx: "max_chunk_size (append_mutable_chunk t) = max_chunk_size t"
      by (rule append_mutable_chunk_fields)+
    have "list_all (\<lambda>c. chunk_size c = ?m) (chunks t)"
    proof (cases "chunks t = []")
      case True
      then show ?thesis by simp
    next
      case False
      then have "chunk_size (last (chunks t)) = ?m" using True lastle by simp
      moreover have "chunks t = butlast (chunks t) @ [last (chunks t)]" using False by simp
      ultimately show ?thesis using full
        by (metis list.pred_inject(1) list.pred_inject(2) list_all_append)
    qed
    moreover have "butlast (chunks (append_mutable_chunk t)) = chunks t"
      by (subst ch) simp
    moreover have "chunks (append_mutable_chunk t) \<noteq> []" by (subst ch) simp
    ultimately show ?thesis using True sz mx m by simp
  next
    case False
    then show ?thesis using full by simp
  qed
  from app t1 obtain c where c: "chunk_append row (last (chunks ?t1)) = Inr c"
    and t': "t' = Table (column_definitions ?t1) (table_type ?t1) (max_chunk_size ?t1)
        (use_mvcc ?t1) (butlast (chunks ?t1) @ [c])"
    unfolding append'_def Let_def by (auto split: if_splits sum.splits)
  have "chunk_size c \<le> ?m" using chunk_append_size[OF c] t1 by (auto split: if_splits)
  then show ?thesis using t1 m unfolding t' chunks_filled_def by simp
qed

lemma append_rows_filled:
  "chunks_filled t \<Longrightarrow> append_rows rows t = Inr t' \<Longrightarrow>
     chunks_filled t' \<and> max_chunk_size t' = max_chunk_size t"
proof (induction rows arbitrary: t)
  case Nil
  then show ?case by simp
next
  case (Cons row rows)
  from Cons.prems(2) obtain t1 where a: "append' row t = Inr t1"
    and r: "append_rows rows t1 = Inr t'"
    by (auto split: sum.splits)
  from append_filled[OF Cons.prems(1) a] Cons.IH[OF _ r] show ?case by simp
qed

text \<open>
  C6, as stated, fails: \<open>append_chunk\<close> takes segments of any size, so after two chunks
  of one row each were appended to a table with a maximal chunk size of two, the first
  chunk is not the last one and has one row.
\<close>

theorem appended_chunks_need_not_be_full:
  "construct_table [int_column] Data 2 No = Inr empty_int_table
   \<and> map chunk_size (chunks two_short_chunks) = [1, 1]
   \<and> unat (max_chunk_size two_short_chunks) = 2
   \<and> \<not> list_all (\<lambda>c. chunk_size c = unat (max_chunk_size two_short_chunks))
         (butlast (chunks two_short_chunks))"
  by (simp add: construct_table_def empty_int_table_def two_short_chunks_def append_chunk_def
      chunk_size_def)

text \<open>
  C6, amended. For every table, \<open>row_count\<close> is the sum of the sizes of its chunks, in
  the 64 bits of its counter. For every table made by the constructor and filled by
  \<open>append\<close> alone, every chunk but the last one has exactly \<open>max_chunk_size\<close> rows.
\<close>

theorem row_count_and_filled_chunks:
  "unat (row_count t) = sum_list (map chunk_size (chunks t)) mod 2 ^ 64
   \<and> (construct_table defs ty mcs mvcc = Inr t0 \<and> append_rows rows t0 = Inr t' \<longrightarrow>
        list_all (\<lambda>c. chunk_size c = unat mcs) (butlast (chunks t')))"
proof (intro conjI impI)
  show "unat (row_count t) = sum_list (map chunk_size (chunks t)) mod 2 ^ 64"
    by (simp add: row_count_sum unat_of_nat)
next
  assume a: "construct_table defs ty mcs mvcc = Inr t0 \<and> append_rows rows t0 = Inr t'"
  from construct_table_filled[of defs ty mcs mvcc t0] a
  have "chunks_filled t0" and "max_chunk_size t0 = mcs" by simp_all
  with append_rows_filled[of t0 rows t'] a
  show "list_all (\<lambda>c. chunk_size c = unat mcs) (butlast (chunks t'))"
    by (auto simp: chunks_filled_def)
qed


text \<open>
  The theorem at the table with one integer column, chunks of at most two rows, and
  the three rows 1, 2 and 3.
\<close>

theorem row_count_and_filled_chunks_witness:
  "construct_table [int_column] Data 2 No = Inr empty_int_table
   \<and> append_rows [[Some 1], [Some 2], [Some 3]] empty_int_table =
       Inr (Table [int_column] Data 2 No
             [Chunk [ValueSegment Int' False [Some 1, Some 2]] None,
              Chunk [ValueSegment Int' False [Some 3]] None])
   \<and> unat (row_count (Table [int_column] Data 2 No
             [Chunk [ValueSegment Int' False [Some 1, Some 2]] None,
              Chunk [ValueSegment Int' False [Some (3::int)]] None])) = 3
   \<and> list_all (\<lambda>c. chunk_size c = unat (2 :: 32 word))
        (butlast (chunks (Table [int_column] Data 2 No
             [Chunk [ValueSegment Int' False [Some 1, Some 2]] None,
              Chunk [ValueSegment Int' False [Some (3::int)]] None])))"
proof -
  have c: "construct_table [int_column] Data 2 No = Inr empty_int_table"
    by (simp add: construct_table_def empty_int_table_def)
  have a: "append_rows [[Some 1], [Some 2], [Some 3]] empty_int_table =
       Inr (Table [int_column] Data 2 No
             [Chunk [ValueSegment Int' False [Some 1, Some 2]] None,
              Chunk [ValueSegment Int' False [Some 3]] None])"
    by code_simp
  have s: "sum_list (map chunk_size (chunks (Table [int_column] Data 2 No
             [Chunk [ValueSegment Int' False [Some 1, Some 2]] None,
              Chunk [ValueSegment Int' False [Some (3::int)]] None]))) = 3"
    by (simp add: chunk_size_def)
  show ?thesis
    using row_count_and_filled_chunks
      [of "Table [int_column] Data 2 No
             [Chunk [ValueSegment Int' False [Some 1, Some 2]] None,
              Chunk [ValueSegment Int' False [Some (3::int)]] None]"
          "[int_column]" Data 2 No empty_int_table "[[Some 1], [Some 2], [Some 3]]"
          "Table [int_column] Data 2 No
             [Chunk [ValueSegment Int' False [Some 1, Some 2]] None,
              Chunk [ValueSegment Int' False [Some (3::int)]] None]"] c a s
    by simp
qed


section \<open>The nested-loop join\<close>

text \<open>What one match, one run of the inner loop and one pair of segments append.\<close>

lemma appends_refl: "appends p p cl []"
  by (simp add: appends_def list_all_iff)

lemma appends_trans:
  assumes "appends p p' cl M" and "appends p' p'' cl M'"
  shows "appends p p'' cl (M @ M')"
  using assms unfolding appends_def list_all_iff
  by (auto simp: image_Un)

lemma set_match_Inr:
  "set_match v (Some i) = Inr v' \<Longrightarrow>
     length v' = length v \<and> (\<forall>offset<length v. v' ! offset = (v ! offset \<or> offset = i))"
  by (auto simp: set_match_def nth_list_update split: if_splits)

lemma process_match_appends:
  assumes "process_match (RowID cl lo) (RowID cr ro) p = Inr p'"
  shows "appends p p' cl [(RowID cl lo, RowID cr ro)]"
proof -
  have f: "pos_list_left p' = pos_list_left p @ [RowID cl lo]
      \<and> pos_list_right p' = pos_list_right p @ [RowID cr ro]
      \<and> track_left_matches p' = track_left_matches p
      \<and> track_right_matches p' = track_right_matches p
      \<and> predicate_condition' p' = predicate_condition' p
      \<and> mode p' = mode p
      \<and> (if track_left_matches p then set_match (left_matches p) (Some lo)
          else Inr (left_matches p)) = Inr (left_matches p')"
    using assms unfolding process_match_def Let_def
    by (cases "track_left_matches p"; cases "track_right_matches p")
       (auto split: sum.splits)
  have "length (left_matches p') = length (left_matches p)
      \<and> (\<forall>offset<length (left_matches p). left_matches p' ! offset =
           (left_matches p ! offset \<or> (track_left_matches p \<and> offset = lo)))"
  proof (cases "track_left_matches p")
    case True
    then show ?thesis using f set_match_Inr[of "left_matches p" lo "left_matches p'"] by simp
  next
    case False
    then show ?thesis using f by simp
  qed
  then show ?thesis using f by (auto simp: appends_def list_all_iff)
qed

lemma join_right_positions_appends:
  assumes "fold_error (join_right_positions func l cl cr) rps p = Inr p'"
  shows "appends p p' cl (matching_right_positions func l cl cr rps)"
  using assms
proof (induction rps arbitrary: p)
  case Nil
  then show ?case by (simp add: matching_right_positions_def appends_refl)
next
  case (Cons r rps)
  from Cons.prems obtain p1 where
    s: "join_right_positions func l cl cr p r = Inr p1"
    and f: "fold_error (join_right_positions func l cl cr) rps p1 = Inr p'"
    by (auto split: sum.splits)
  have "appends p p1 cl
      (if \<not> is_null r \<and> (case (position_value l, position_value r) of
               (Some a, Some b) \<Rightarrow> func a b | _ \<Rightarrow> False)
       then [(RowID cl (chunk_offset l), RowID cr (chunk_offset r))] else [])"
    using s process_match_appends[of cl "chunk_offset l" cr "chunk_offset r" p p1]
    by (auto simp: join_right_positions_def appends_refl split: if_splits option.splits)
  from appends_trans[OF this Cons.IH[OF f]]
  show ?case by (simp add: matching_right_positions_def)
qed

lemma join_two_typed_segments_appends:
  assumes "join_two_typed_segments func lps rps cl cr p = Inr p'"
  shows "appends p p' cl (matched_pairs func lps rps cl cr)"
proof -
  have "fold_error
      (\<lambda>params l. if is_null l then Inr params
         else fold_error (join_right_positions func l cl cr) rps params) lps p = Inr p'
    \<Longrightarrow> appends p p' cl (matched_pairs func lps rps cl cr)"
  proof (induction lps arbitrary: p)
    case Nil
    then show ?case by (simp add: matched_pairs_def appends_refl)
  next
    case (Cons l lps)
    from Cons.prems obtain p1 where
      s: "(if is_null l then Inr p
           else fold_error (join_right_positions func l cl cr) rps p) = Inr p1"
      and f: "fold_error
        (\<lambda>params l. if is_null l then Inr params
           else fold_error (join_right_positions func l cl cr) rps params) lps p1 = Inr p'"
      by (auto split: sum.splits)
    have "appends p p1 cl
        (if is_null l then [] else matching_right_positions func l cl cr rps)"
      using s join_right_positions_appends[of func l cl cr rps p p1]
      by (auto simp: appends_refl split: if_splits)
    from appends_trans[OF this Cons.IH[OF f]]
    show ?case by (simp add: matched_pairs_def)
  qed
  then show ?thesis using assms by (simp add: join_two_typed_segments_def)
qed


lemma sorted_wrt_concat_map:
  assumes "\<And>x. x \<in> set xs \<Longrightarrow> sorted_wrt R (f x)"
    and "sorted_wrt (\<lambda>x y. \<forall>a\<in>set (f x). \<forall>b\<in>set (f y). R a b) xs"
  shows "sorted_wrt R (concat (map f xs))"
  using assms
proof (induction xs)
  case Nil
  then show ?case by simp
next
  case (Cons x xs)
  then show ?case by (auto simp: sorted_wrt_append)
qed

lemma matching_right_positions_entries:
  "q \<in> set (matching_right_positions func l cl cr rps) \<Longrightarrow>
     \<exists>r\<in>set rps. q = (RowID cl (chunk_offset l), RowID cr (chunk_offset r))"
  by (auto simp: matching_right_positions_def split: if_splits)

lemma matched_pairs_entries:
  "q \<in> set (matched_pairs func lps rps cl cr) \<Longrightarrow>
     \<exists>l\<in>set lps. \<exists>r\<in>set rps. q = (RowID cl (chunk_offset l), RowID cr (chunk_offset r))"
  by (fastforce simp: matched_pairs_def split: if_splits
        dest: matching_right_positions_entries)

lemma matching_right_positions_sorted:
  assumes "sorted_wrt (<) (map chunk_offset rps)"
  shows "sorted_wrt follows (matching_right_positions func l cl cr rps)"
  unfolding matching_right_positions_def
proof (rule sorted_wrt_concat_map)
  fix r
  show "sorted_wrt follows
      (if \<not> is_null r \<and> (case (position_value l, position_value r) of
               (Some a, Some b) \<Rightarrow> func a b | _ \<Rightarrow> False)
       then [(RowID cl (chunk_offset l), RowID cr (chunk_offset r))] else [])"
    by simp
next
  have "sorted_wrt (\<lambda>r r'. chunk_offset r < chunk_offset r') rps"
    using assms by (simp add: sorted_wrt_map)
  then show "sorted_wrt (\<lambda>r r'.
      \<forall>a\<in>set (if \<not> is_null r \<and> (case (position_value l, position_value r) of
               (Some a, Some b) \<Rightarrow> func a b | _ \<Rightarrow> False)
       then [(RowID cl (chunk_offset l), RowID cr (chunk_offset r))] else []).
      \<forall>b\<in>set (if \<not> is_null r' \<and> (case (position_value l, position_value r') of
               (Some a, Some b) \<Rightarrow> func a b | _ \<Rightarrow> False)
       then [(RowID cl (chunk_offset l), RowID cr (chunk_offset r'))] else []).
      follows a b) rps"
    by (rule sorted_wrt_mono_rel[rotated]) (auto simp: lexicographic_def)
qed

lemma matched_pairs_sorted:
  assumes "sorted_wrt (<) (map chunk_offset lps)" and "sorted_wrt (<) (map chunk_offset rps)"
  shows "sorted_wrt follows (matched_pairs func lps rps cl cr)"
  unfolding matched_pairs_def
proof (rule sorted_wrt_concat_map)
  fix l
  show "sorted_wrt follows
      (if is_null l then [] else matching_right_positions func l cl cr rps)"
    using matching_right_positions_sorted[OF assms(2)] by simp
next
  have "sorted_wrt (\<lambda>l l'. chunk_offset l < chunk_offset l') lps"
    using assms(1) by (simp add: sorted_wrt_map)
  then show "sorted_wrt (\<lambda>l l'.
      \<forall>a\<in>set (if is_null l then [] else matching_right_positions func l cl cr rps).
      \<forall>b\<in>set (if is_null l' then [] else matching_right_positions func l' cl cr rps).
      follows a b) lps"
    by (rule sorted_wrt_mono_rel[rotated])
       (auto simp: lexicographic_def split: if_splits dest!: matching_right_positions_entries)
qed


lemma positions_offsets:
  assumes "segment_with_iterators_filtered seg None = Inr ps"
  shows "sorted_wrt (<) (map chunk_offset ps)"
proof -
  from assms obtain vs where "with_iterators vs (\<lambda>v. v = None) None = Inr ps"
    by (auto simp: segment_with_iterators_filtered_def split: sum.splits)
  then have "map chunk_offset ps = [0..<length vs]"
    by (auto simp: with_iterators_def Let_def o_def split: if_splits)
  then show ?thesis by simp
qed

lemma join_two_untyped_segments_appends:
  assumes "join_two_untyped_segments sl sr cl cr p = Inr p'"
  shows "\<exists>M. appends p p' cl M \<and> sorted_wrt follows M
     \<and> (\<forall>q\<in>set M. \<exists>lo ro. q = (RowID cl lo, RowID cr ro))"
proof -
  have "join_segments_with_iterators sl sr cl cr p = Inr p'"
    using assms by (auto simp: join_two_untyped_segments_def split: sum.splits if_splits)
  then obtain lps rps func where l: "segment_with_iterators_filtered sl None = Inr lps"
    and r: "segment_with_iterators_filtered sr None = Inr rps"
    and j: "join_two_typed_segments func lps rps cl cr p = Inr p'"
    by (auto simp: join_segments_with_iterators_def split: sum.splits option.splits)
  have "appends p p' cl (matched_pairs func lps rps cl cr)"
    by (rule join_two_typed_segments_appends[OF j])
  moreover have "sorted_wrt follows (matched_pairs func lps rps cl cr)"
    by (rule matched_pairs_sorted[OF positions_offsets[OF l] positions_offsets[OF r]])
  moreover have "\<forall>q\<in>set (matched_pairs func lps rps cl cr).
      \<exists>lo ro. q = (RowID cl lo, RowID cr ro)"
    by (blast dest: matched_pairs_entries)
  ultimately show ?thesis by blast
qed

subsection \<open>The loops over the chunks\<close>

lemma state_appends_refl: "state_appends m st st cl []"
  by (simp add: state_appends_def list_all_iff)

lemma state_appends_trans:
  assumes "state_appends m st st' cl M" and "state_appends m st' st'' cl M'"
  shows "state_appends m st st'' cl (M @ M')"
  using assms unfolding state_appends_def list_all_iff
  by (auto simp: image_Un)

lemma join_right_chunk_appends:
  assumes "join_right_chunk m pc rcol sl cl st (cr, c) = Inr st'"
  shows "\<exists>M. state_appends m st st' cl M \<and> sorted_wrt follows M
     \<and> (\<forall>q\<in>set M. \<exists>lo ro. q = (RowID cl lo, RowID cr ro))"
proof -
  obtain s lm where st: "st = (s, lm)" by (cases st)
  from assms st obtain sr p' where
    j: "join_two_untyped_segments sl sr cl cr
          \<lparr>pos_list_left = state_pos_list_left s,
           pos_list_right = state_pos_list_right s,
           left_matches = lm,
           right_matches = resize (state_right_matches s ! cr) (segment_size sr),
           track_left_matches = is_outer_join m,
           track_right_matches = (m = Outer),
           mode = m,
           predicate_condition' = pc\<rparr> = Inr p'"
    and st': "st' = (\<lparr>state_pos_list_left = pos_list_left p',
                     state_pos_list_right = pos_list_right p',
                     state_right_matches = (state_right_matches s)[cr := right_matches p']\<rparr>,
                    left_matches p')"
    by (auto simp: join_right_chunk_def split: sum.splits if_splits)
  from join_two_untyped_segments_appends[OF j] obtain M where
    a: "appends \<lparr>pos_list_left = state_pos_list_left s,
           pos_list_right = state_pos_list_right s,
           left_matches = lm,
           right_matches = resize (state_right_matches s ! cr) (segment_size sr),
           track_left_matches = is_outer_join m,
           track_right_matches = (m = Outer),
           mode = m,
           predicate_condition' = pc\<rparr> p' cl M"
    and M: "sorted_wrt follows M" "\<forall>q\<in>set M. \<exists>lo ro. q = (RowID cl lo, RowID cr ro)"
    by blast
  have "state_appends m st st' cl M"
    using a unfolding st st' by (simp add: appends_def state_appends_def)
  with M show ?thesis by blast
qed

lemma join_right_chunks_appends:
  assumes "fold_error (join_right_chunk m pc rcol sl cl) (enumerate k cs) st = Inr st'"
  shows "\<exists>M. state_appends m st st' cl M \<and> sorted_wrt follows M
     \<and> (\<forall>q\<in>set M. \<exists>lo cr ro. q = (RowID cl lo, RowID cr ro) \<and> k \<le> cr)"
  using assms
proof (induction cs arbitrary: k st)
  case Nil
  then show ?case using state_appends_refl[of m st cl] by auto
next
  case (Cons c cs)
  from Cons.prems obtain st1 where
    s: "join_right_chunk m pc rcol sl cl st (k, c) = Inr st1"
    and f: "fold_error (join_right_chunk m pc rcol sl cl) (enumerate (Suc k) cs) st1 = Inr st'"
    by (auto split: sum.splits)
  from join_right_chunk_appends[OF s] obtain M1 where
    a1: "state_appends m st st1 cl M1" and s1: "sorted_wrt follows M1"
    and e1: "\<forall>q\<in>set M1. \<exists>lo ro. q = (RowID cl lo, RowID k ro)"
    by blast
  from Cons.IH[OF f] obtain M2 where
    a2: "state_appends m st1 st' cl M2" and s2: "sorted_wrt follows M2"
    and e2: "\<forall>q\<in>set M2. \<exists>lo cr ro. q = (RowID cl lo, RowID cr ro) \<and> Suc k \<le> cr"
    by blast
  have "state_appends m st st' cl (M1 @ M2)" by (rule state_appends_trans[OF a1 a2])
  moreover have "sorted_wrt follows (M1 @ M2)"
    unfolding sorted_wrt_append using s1 s2 e1 e2
    by (fastforce simp: lexicographic_def)
  moreover have "\<forall>q\<in>set (M1 @ M2). \<exists>lo cr ro. q = (RowID cl lo, RowID cr ro) \<and> k \<le> cr"
    using e1 e2 by fastforce
  ultimately show ?case by blast
qed


lemma add_unmatched_left_eq:
  "state_pos_list_left (add_unmatched_left m cl lm s) = state_pos_list_left s @
     (if is_outer_join m then map (RowID cl) (filter (\<lambda>offset. \<not> lm ! offset) [0..<length lm])
      else [])"
  "state_pos_list_right (add_unmatched_left m cl lm s) = state_pos_list_right s @
     (if is_outer_join m
      then map (\<lambda>offset. NULL_ROW_ID) (filter (\<lambda>offset. \<not> lm ! offset) [0..<length lm])
      else [])"
  "state_right_matches (add_unmatched_left m cl lm s) = state_right_matches s"
proof -
  let ?step = "\<lambda>s offset.
     if \<not> lm ! offset
     then s\<lparr>state_pos_list_left := state_pos_list_left s @ [RowID cl offset],
            state_pos_list_right := state_pos_list_right s @ [NULL_ROW_ID]\<rparr>
     else s"
  have "state_pos_list_left (foldl ?step s os) = state_pos_list_left s @
          map (RowID cl) (filter (\<lambda>offset. \<not> lm ! offset) os)
      \<and> state_pos_list_right (foldl ?step s os) = state_pos_list_right s @
          map (\<lambda>offset. NULL_ROW_ID) (filter (\<lambda>offset. \<not> lm ! offset) os)
      \<and> state_right_matches (foldl ?step s os) = state_right_matches s" for os
    by (induction os arbitrary: s) auto
  then show
    "state_pos_list_left (add_unmatched_left m cl lm s) = state_pos_list_left s @
     (if is_outer_join m then map (RowID cl) (filter (\<lambda>offset. \<not> lm ! offset) [0..<length lm])
      else [])"
    "state_pos_list_right (add_unmatched_left m cl lm s) = state_pos_list_right s @
     (if is_outer_join m
      then map (\<lambda>offset. NULL_ROW_ID) (filter (\<lambda>offset. \<not> lm ! offset) [0..<length lm])
      else [])"
    "state_right_matches (add_unmatched_left m cl lm s) = state_right_matches s"
    by (simp_all add: add_unmatched_left_def)
qed

text \<open>The loops over one left chunk: the matched pairs, then the unmatched left rows.\<close>

lemma join_left_chunk_parts:
  assumes "join_left_chunk m pc lcol rcol right_table s (cl, c) = Inr s'"
  shows "\<exists>segment_left s1 lm M.
       get_segment c lcol = Inr segment_left
     \<and> fold_error (join_right_chunk m pc rcol segment_left cl)
          (enumerate 0 (chunks right_table))
          (s, if is_outer_join m then replicate (segment_size segment_left) False else [])
         = Inr (s1, lm)
     \<and> state_pos_list_left s1 = state_pos_list_left s @ map fst M
     \<and> state_pos_list_right s1 = state_pos_list_right s @ map snd M
     \<and> sorted_wrt follows M
     \<and> (\<forall>q\<in>set M. \<exists>lo cr ro. q = (RowID cl lo, RowID cr ro))
     \<and> length (state_right_matches s') = length (state_right_matches s)
     \<and> state_pos_list_left s' = state_pos_list_left s1 @
          (if is_outer_join m
           then map (RowID cl) (filter (\<lambda>offset. RowID cl offset \<notin> fst ` set M)
                  [0..<segment_size segment_left])
           else [])
     \<and> state_pos_list_right s' = state_pos_list_right s1 @
          (if is_outer_join m
           then map (\<lambda>offset. NULL_ROW_ID)
                  (filter (\<lambda>offset. RowID cl offset \<notin> fst ` set M)
                     [0..<segment_size segment_left])
           else [])"
proof -
  from assms obtain sl s1 lm where g: "get_segment c lcol = Inr sl"
    and f: "fold_error (join_right_chunk m pc rcol sl cl) (enumerate 0 (chunks right_table))
          (s, if is_outer_join m then replicate (segment_size sl) False else []) = Inr (s1, lm)"
    and s': "s' = add_unmatched_left m cl lm s1"
    by (auto simp: join_left_chunk_def split: sum.splits prod.splits)
  from join_right_chunks_appends[OF f] obtain M where
    a: "state_appends m
          (s, if is_outer_join m then replicate (segment_size sl) False else []) (s1, lm) cl M"
    and srt: "sorted_wrt follows M"
    and e: "\<forall>q\<in>set M. \<exists>lo cr ro. q = (RowID cl lo, RowID cr ro) \<and> 0 \<le> cr"
    by blast
  have bits: "is_outer_join m \<Longrightarrow> length lm = segment_size sl
      \<and> (\<forall>offset. offset < segment_size sl \<longrightarrow> (\<not> lm ! offset) = (RowID cl offset \<notin> fst ` set M))"
    using a by (auto simp: state_appends_def list_all_iff)
  have same: "is_outer_join m \<Longrightarrow>
      filter (\<lambda>offset. \<not> lm ! offset) [0..<length lm]
      = filter (\<lambda>offset. RowID cl offset \<notin> fst ` set M) [0..<segment_size sl]"
  proof -
    assume o: "is_outer_join m"
    then have "length lm = segment_size sl" using bits by simp
    moreover have "filter (\<lambda>offset. \<not> lm ! offset) [0..<segment_size sl]
      = filter (\<lambda>offset. RowID cl offset \<notin> fst ` set M) [0..<segment_size sl]"
      using bits[OF o] by (intro filter_cong) auto
    ultimately show ?thesis by simp
  qed
  have "state_pos_list_left s1 = state_pos_list_left s @ map fst M"
    "state_pos_list_right s1 = state_pos_list_right s @ map snd M"
    "length (state_right_matches s1) = length (state_right_matches s)"
    using a by (simp_all add: state_appends_def)
  moreover have "\<forall>q\<in>set M. \<exists>lo cr ro. q = (RowID cl lo, RowID cr ro)" using e by blast
  ultimately show ?thesis using g f srt same unfolding s'
    by (intro exI[of _ sl] exI[of _ s1] exI[of _ lm] exI[of _ M])
       (simp add: add_unmatched_left_eq)
qed


lemma join_left_chunk_rows:
  assumes "join_left_chunk m pc lcol rcol right_table s (cl, c) = Inr s'"
  shows "\<exists>B. state_pos_list_left s' = state_pos_list_left s @ map fst B
     \<and> state_pos_list_right s' = state_pos_list_right s @ map snd B
     \<and> sorted_wrt follows B
     \<and> (\<forall>q\<in>set B. \<exists>lo. fst q = RowID cl lo)"
proof -
  from join_left_chunk_parts[OF assms] obtain sl s1 lm M where parts:
    "get_segment c lcol = Inr sl
     \<and> fold_error (join_right_chunk m pc rcol sl cl)
          (enumerate 0 (chunks right_table))
          (s, if is_outer_join m then replicate (segment_size sl) False else [])
         = Inr (s1, lm)
     \<and> state_pos_list_left s1 = state_pos_list_left s @ map fst M
     \<and> state_pos_list_right s1 = state_pos_list_right s @ map snd M
     \<and> sorted_wrt follows M
     \<and> (\<forall>q\<in>set M. \<exists>lo cr ro. q = (RowID cl lo, RowID cr ro))
     \<and> length (state_right_matches s') = length (state_right_matches s)
     \<and> state_pos_list_left s' = state_pos_list_left s1 @
          (if is_outer_join m
           then map (RowID cl) (filter (\<lambda>offset. RowID cl offset \<notin> fst ` set M)
                  [0..<segment_size sl])
           else [])
     \<and> state_pos_list_right s' = state_pos_list_right s1 @
          (if is_outer_join m
           then map (\<lambda>offset. NULL_ROW_ID)
                  (filter (\<lambda>offset. RowID cl offset \<notin> fst ` set M)
                     [0..<segment_size sl])
           else [])"
    by (elim exE) (erule that)
  have l1: "state_pos_list_left s1 = state_pos_list_left s @ map fst M"
    and r1: "state_pos_list_right s1 = state_pos_list_right s @ map snd M"
    and srt: "sorted_wrt follows M"
    and e: "\<forall>q\<in>set M. \<exists>lo cr ro. q = (RowID cl lo, RowID cr ro)"
    and l2: "state_pos_list_left s' = state_pos_list_left s1 @
          (if is_outer_join m
           then map (RowID cl) (filter (\<lambda>offset. RowID cl offset \<notin> fst ` set M)
                  [0..<segment_size sl])
           else [])"
    and r2: "state_pos_list_right s' = state_pos_list_right s1 @
          (if is_outer_join m
           then map (\<lambda>offset. NULL_ROW_ID)
                  (filter (\<lambda>offset. RowID cl offset \<notin> fst ` set M)
                     [0..<segment_size sl])
           else [])"
    using parts by simp_all
  define U where "U = (if is_outer_join m
      then map (\<lambda>offset. (RowID cl offset, NULL_ROW_ID))
             (filter (\<lambda>offset. RowID cl offset \<notin> fst ` set M) [0..<segment_size sl])
      else [])"
  have "state_pos_list_left s' = state_pos_list_left s @ map fst (M @ U)"
    using l1 l2 by (simp add: U_def o_def)
  moreover have "state_pos_list_right s' = state_pos_list_right s @ map snd (M @ U)"
    using r1 r2 by (simp add: U_def o_def)
  moreover have "sorted_wrt follows U"
    by (simp add: U_def sorted_wrt_map)
  moreover have "\<forall>x\<in>set M. \<forall>y\<in>set U. follows x y"
    using e by (fastforce simp: U_def)
  moreover have "\<forall>q\<in>set (M @ U). \<exists>lo. fst q = RowID cl lo"
    using e by (fastforce simp: U_def)
  ultimately show ?thesis using srt
    by (intro exI[of _ "M @ U"]) (simp add: sorted_wrt_append)
qed

lemma follows_later_left_chunk:
  assumes "fst p = RowID cl lo" "fst q = RowID cl' lo'" "cl < cl'"
  shows "follows p q"
proof -
  obtain a b where p: "p = (a, b)" by (cases p)
  obtain a' b' where q: "q = (a', b')" by (cases q)
  show ?thesis using assms unfolding p q
    by (cases b; cases b') (simp_all add: lexicographic_def)
qed

lemma join_left_chunks_rows:
  "fold_error (join_left_chunk m pc lcol rcol right_table) (enumerate k cs) s = Inr s'
   \<Longrightarrow> \<exists>B. state_pos_list_left s' = state_pos_list_left s @ map fst B
     \<and> state_pos_list_right s' = state_pos_list_right s @ map snd B
     \<and> sorted_wrt follows B
     \<and> (\<forall>q\<in>set B. \<exists>cl lo. fst q = RowID cl lo \<and> k \<le> cl)"
proof (induction cs arbitrary: k s)
  case Nil
  then show ?case by (intro exI[of _ "[]"]) simp
next
  case (Cons c cs)
  from Cons.prems obtain s1 where
    one: "join_left_chunk m pc lcol rcol right_table s (k, c) = Inr s1"
    and rest: "fold_error (join_left_chunk m pc lcol rcol right_table)
                 (enumerate (Suc k) cs) s1 = Inr s'"
    by (auto split: sum.splits)
  from join_left_chunk_rows[OF one] obtain B1 where
    b1: "state_pos_list_left s1 = state_pos_list_left s @ map fst B1"
        "state_pos_list_right s1 = state_pos_list_right s @ map snd B1"
        "sorted_wrt follows B1"
        "\<forall>q\<in>set B1. \<exists>lo. fst q = RowID k lo"
    by blast
  from Cons.IH[OF rest] obtain B2 where
    b2: "state_pos_list_left s' = state_pos_list_left s1 @ map fst B2"
        "state_pos_list_right s' = state_pos_list_right s1 @ map snd B2"
        "sorted_wrt follows B2"
        "\<forall>q\<in>set B2. \<exists>cl lo. fst q = RowID cl lo \<and> Suc k \<le> cl"
    by blast
  have cross: "\<forall>x\<in>set B1. \<forall>y\<in>set B2. follows x y"
  proof (intro ballI)
    fix x y assume "x \<in> set B1" "y \<in> set B2"
    then obtain lo cl' lo' where "fst x = RowID k lo" "fst y = RowID cl' lo'" "k < cl'"
      using b1(4) b2(4) by (metis Suc_le_lessD)
    then show "follows x y" by (rule follows_later_left_chunk)
  qed
  have "\<forall>q\<in>set (B1 @ B2). \<exists>cl lo. fst q = RowID cl lo \<and> k \<le> cl"
    using b1(4) b2(4) by (auto dest: Suc_leD) 
  then show ?case using b1 b2 cross
    by (intro exI[of _ "B1 @ B2"]) (simp add: sorted_wrt_append)
qed

lemma add_unmatched_right_chunk_rows:
  assumes "add_unmatched_right_chunk s (cr, c) = Inr s'"
  shows "\<exists>R. state_pos_list_left s' = state_pos_list_left s @ map fst R
     \<and> state_pos_list_right s' = state_pos_list_right s @ map snd R
     \<and> (\<forall>q\<in>set R. fst q = NULL_ROW_ID)"
proof -
  let ?step = "\<lambda>s offset.
           if cr < length (state_right_matches s)
              \<and> offset < length (state_right_matches s ! cr)
           then (if \<not> state_right_matches s ! cr ! offset
                 then Inr (s\<lparr>state_pos_list_left := state_pos_list_left s @ [NULL_ROW_ID],
                             state_pos_list_right :=
                               state_pos_list_right s @ [RowID cr offset]\<rparr>)
                 else Inr s)
           else Inl OutOfRange"
  have "fold_error ?step os s = Inr s'
    \<Longrightarrow> \<exists>R. state_pos_list_left s' = state_pos_list_left s @ map fst R
     \<and> state_pos_list_right s' = state_pos_list_right s @ map snd R
     \<and> (\<forall>q\<in>set R. fst q = NULL_ROW_ID)" for os
  proof (induction os arbitrary: s)
    case Nil
    then show ?case by (intro exI[of _ "[]"]) simp
  next
    case (Cons offset os)
    from Cons.prems obtain s1 where one: "?step s offset = Inr s1"
      and rest: "fold_error ?step os s1 = Inr s'"
      by (auto split: sum.splits)
    from Cons.IH[OF rest] obtain R where
      r: "state_pos_list_left s' = state_pos_list_left s1 @ map fst R"
         "state_pos_list_right s' = state_pos_list_right s1 @ map snd R"
         "\<forall>q\<in>set R. fst q = NULL_ROW_ID"
      by blast
    show ?case
    proof (cases "s1 = s")
      case True
      then show ?thesis using r by (intro exI[of _ R]) simp
    next
      case False
      then have "s1 = s\<lparr>state_pos_list_left := state_pos_list_left s @ [NULL_ROW_ID],
                        state_pos_list_right := state_pos_list_right s @ [RowID cr offset]\<rparr>"
        using one by (auto split: if_splits)
      then show ?thesis using r
        by (intro exI[of _ "(NULL_ROW_ID, RowID cr offset) # R"]) simp
    qed
  qed
  then show ?thesis using assms by (simp add: add_unmatched_right_chunk_def)
qed

lemma add_unmatched_right_chunks_rows:
  "fold_error add_unmatched_right_chunk cs s = Inr s'
   \<Longrightarrow> \<exists>R. state_pos_list_left s' = state_pos_list_left s @ map fst R
     \<and> state_pos_list_right s' = state_pos_list_right s @ map snd R
     \<and> (\<forall>q\<in>set R. fst q = NULL_ROW_ID)"
proof (induction cs arbitrary: s)
  case Nil
  then show ?case by (intro exI[of _ "[]"]) simp
next
  case (Cons c cs)
  obtain cr ch where c: "c = (cr, ch)" by (cases c)
  from Cons.prems obtain s1 where one: "add_unmatched_right_chunk s (cr, ch) = Inr s1"
    and rest: "fold_error add_unmatched_right_chunk cs s1 = Inr s'"
    by (auto simp: c split: sum.splits)
  from add_unmatched_right_chunk_rows[OF one] obtain R1 where
    r1: "state_pos_list_left s1 = state_pos_list_left s @ map fst R1"
        "state_pos_list_right s1 = state_pos_list_right s @ map snd R1"
        "\<forall>q\<in>set R1. fst q = NULL_ROW_ID"
    by blast
  from Cons.IH[OF rest] obtain R2 where
    r2: "state_pos_list_left s' = state_pos_list_left s1 @ map fst R2"
        "state_pos_list_right s' = state_pos_list_right s1 @ map snd R2"
        "\<forall>q\<in>set R2. fst q = NULL_ROW_ID"
    by blast
  show ?case using r1 r2 by (intro exI[of _ "R1 @ R2"]) auto
qed

lemma follows_unmatched_right:
  assumes "fst q = NULL_ROW_ID"
  shows "follows p q"
proof -
  obtain a b where p: "p = (a, b)" by (cases p)
  obtain a' b' where q: "q = (a', b')" by (cases q)
  show ?thesis using assms unfolding p q by (cases a) simp_all
qed

lemma join_positions_rows:
  assumes "join_positions m pc column_ids input_table_left input_table_right = Inr (pl, pr)"
  shows "\<exists>B R. pl = map fst (B @ R) \<and> pr = map snd (B @ R)
     \<and> sorted_wrt follows (B @ R)
     \<and> (\<forall>q\<in>set B. fst q \<noteq> NULL_ROW_ID)
     \<and> (\<forall>q\<in>set R. fst q = NULL_ROW_ID)
     \<and> (m \<noteq> Outer \<longrightarrow> R = [])"
proof -
  define left_table where "left_table = (if m = Right then input_table_right else input_table_left)"
  define right_table where
    "right_table = (if m = Right then input_table_left else input_table_right)"
  define lcol where "lcol = (if m = Right then snd column_ids else fst column_ids)"
  define rcol where "rcol = (if m = Right then fst column_ids else snd column_ids)"
  define pc' where "pc' = (if m = Right then flip_predicate_condition pc else pc)"
  define s0 where "s0 = \<lparr>state_pos_list_left = [], state_pos_list_right = [],
                state_right_matches = replicate (length (chunks right_table)) []\<rparr>"
  from assms obtain s s' where
    f: "fold_error (join_left_chunk m pc' lcol rcol right_table)
          (enumerate 0 (chunks left_table)) s0 = Inr s"
    and u: "(if m = Outer
             then fold_error add_unmatched_right_chunk (enumerate 0 (chunks right_table)) s
             else Inr s) = Inr s'"
    and res: "pl = state_pos_list_left s'" "pr = state_pos_list_right s'"
    unfolding join_positions_def Let_def left_table_def right_table_def lcol_def rcol_def
      pc'_def s0_def
    by (auto split: sum.splits)
  from join_left_chunks_rows[OF f] obtain B where
    b: "state_pos_list_left s = map fst B" "state_pos_list_right s = map snd B"
       "sorted_wrt follows B" "\<forall>q\<in>set B. \<exists>cl lo. fst q = RowID cl lo \<and> 0 \<le> cl"
    by (auto simp: s0_def)
  have "\<exists>R. state_pos_list_left s' = state_pos_list_left s @ map fst R
     \<and> state_pos_list_right s' = state_pos_list_right s @ map snd R
     \<and> (\<forall>q\<in>set R. fst q = NULL_ROW_ID) \<and> (m \<noteq> Outer \<longrightarrow> R = [])"
  proof (cases "m = Outer")
    case True
    then show ?thesis using add_unmatched_right_chunks_rows[of _ s s'] u by auto
  next
    case False
    then show ?thesis using u by (intro exI[of _ "[]"]) simp
  qed
  then obtain R where
    r: "state_pos_list_left s' = state_pos_list_left s @ map fst R"
       "state_pos_list_right s' = state_pos_list_right s @ map snd R"
       "\<forall>q\<in>set R. fst q = NULL_ROW_ID" "m \<noteq> Outer \<longrightarrow> R = []"
    by blast
  have "sorted_wrt follows R"
    using r(3) by (induction R) (auto intro: follows_unmatched_right)
  then have "sorted_wrt follows (B @ R)"
    using b(3) r(3) by (auto simp: sorted_wrt_append intro: follows_unmatched_right)
  moreover have "\<forall>q\<in>set B. fst q \<noteq> NULL_ROW_ID" using b(4) by fastforce
  ultimately show ?thesis using b r res
    by (intro exI[of _ B] exI[of _ R]) simp
qed


text \<open>The field \<open>mode\<close> of the parameters is not read by the loops.\<close>

lemma fold_error_commute:
  assumes "\<And>s x. f (h s) x = map_sum id h (f s x)"
  shows "fold_error f xs (h s) = map_sum id h (fold_error f xs s)"
  by (induction xs arbitrary: s) (auto simp: assms split: sum.splits)

lemma process_match_mode:
  "process_match l r (p\<lparr>mode := x\<rparr>) = map_sum id (\<lambda>q. q\<lparr>mode := x\<rparr>) (process_match l r p)"
  by (simp add: process_match_def Let_def split: sum.splits)

lemma join_right_positions_mode:
  "join_right_positions func l cl cr (p\<lparr>mode := x\<rparr>) r
   = map_sum id (\<lambda>q. q\<lparr>mode := x\<rparr>) (join_right_positions func l cl cr p r)"
  by (simp add: join_right_positions_def process_match_mode split: option.splits)

lemma join_two_typed_segments_mode:
  "join_two_typed_segments func ls rs cl cr (p\<lparr>mode := x\<rparr>)
   = map_sum id (\<lambda>q. q\<lparr>mode := x\<rparr>) (join_two_typed_segments func ls rs cl cr p)"
  unfolding join_two_typed_segments_def
  by (rule fold_error_commute) (simp add: fold_error_commute join_right_positions_mode)

lemma join_two_untyped_segments_mode:
  "join_two_untyped_segments sl sr cl cr (p\<lparr>mode := x\<rparr>)
   = map_sum id (\<lambda>q. q\<lparr>mode := x\<rparr>) (join_two_untyped_segments sl sr cl cr p)"
  by (simp add: join_two_untyped_segments_def join_segments_with_iterators_def
      join_two_typed_segments_mode split: sum.splits option.splits)

lemma join_right_chunk_Right:
  "join_right_chunk Right pc rcol sl cl st rc = join_right_chunk Left pc rcol sl cl st rc"
proof -
  have p: "\<lparr>pos_list_left = a, pos_list_right = b, left_matches = c, right_matches = d,
            track_left_matches = True, track_right_matches = False, mode = Right,
            predicate_condition' = pc\<rparr>
         = \<lparr>pos_list_left = a, pos_list_right = b, left_matches = c, right_matches = d,
            track_left_matches = True, track_right_matches = False, mode = Left,
            predicate_condition' = pc\<rparr>\<lparr>mode := Right\<rparr>" for a b c d
    by simp
  show ?thesis
    unfolding join_right_chunk_def is_outer_join_def
    by (simp only: p join_two_untyped_segments_mode JoinMode.simps simp_thms)
       (auto split: prod.splits sum.splits)
qed

lemma join_left_chunk_Right:
  "join_left_chunk Right pc lcol rcol right_table = join_left_chunk Left pc lcol rcol right_table"
proof -
  have r: "join_right_chunk Right pc rcol = join_right_chunk Left pc rcol"
    by (intro ext) (rule join_right_chunk_Right)
  have o: "is_outer_join Right = is_outer_join Left"
    by (simp add: is_outer_join_def)
  have u: "add_unmatched_left Right = add_unmatched_left Left"
    by (intro ext) (simp add: add_unmatched_left_def is_outer_join_def)
  show ?thesis
    by (intro ext) (simp only: join_left_chunk_def r o u)
qed

lemma join_positions_Right:
  "join_positions Right pc (lcol, rcol) input_table_left input_table_right
   = join_positions Left (flip_predicate_condition pc) (rcol, lcol)
       input_table_right input_table_left"
  by (simp add: join_positions_def join_left_chunk_Right split: sum.splits)


text \<open>
  C4, amended: whenever the nested loops return the two position lists, these have the
  same length and every row of the output is followed only by rows that may follow it:
  the matched rows are in the lexicographic order of (left chunk, right chunk, left
  offset, right offset), every unmatched left row comes after all matched rows of its
  left chunk and before every row of a later left chunk, and the unmatched right rows,
  which only the mode \<open>Outer\<close> adds, come after all other rows.
\<close>

theorem join_output_order:
  assumes "join_positions m pc column_ids input_table_left input_table_right = Inr (pl, pr)"
  shows "length pl = length pr
     \<and> sorted_wrt follows (zip pl pr)
     \<and> (m \<noteq> Outer \<longrightarrow> NULL_ROW_ID \<notin> set pl)"
proof -
  from join_positions_rows[OF assms] obtain B R where
    rows: "pl = map fst (B @ R)" "pr = map snd (B @ R)" "sorted_wrt follows (B @ R)"
      "\<forall>q\<in>set B. fst q \<noteq> NULL_ROW_ID" "m \<noteq> Outer \<longrightarrow> R = []"
    by blast
  have "zip pl pr = B @ R" unfolding rows(1,2) by (rule zip_map_fst_snd)
  moreover have "m \<noteq> Outer \<longrightarrow> NULL_ROW_ID \<notin> set pl"
    using rows(1,4,5) by auto
  ultimately show ?thesis using rows(1,2,3) by simp
qed

text \<open>
  The full outer join and the left join of \<open>left_rows\<close> and \<open>right_rows\<close> on equal values.
\<close>

theorem join_output_order_witness:
  "join_positions Outer Equals (0, 0) left_rows right_rows
     = Inr ([RowID 0 0, RowID 0 1, RowID 0 0, RowID 0 1, RowID 0 2, NULL_ROW_ID],
            [RowID 0 0, RowID 0 0, RowID 1 0, RowID 1 0, NULL_ROW_ID, RowID 0 1])
   \<and> sorted_wrt follows
        (zip [RowID 0 0, RowID 0 1, RowID 0 0, RowID 0 1, RowID 0 2, NULL_ROW_ID]
             [RowID 0 0, RowID 0 0, RowID 1 0, RowID 1 0, NULL_ROW_ID, RowID 0 1])
   \<and> join_positions Left Equals (0, 0) left_rows right_rows
     = Inr ([RowID 0 0, RowID 0 1, RowID 0 0, RowID 0 1, RowID 0 2],
            [RowID 0 0, RowID 0 0, RowID 1 0, RowID 1 0, NULL_ROW_ID])
   \<and> NULL_ROW_ID \<notin> set [RowID 0 0, RowID 0 1, RowID 0 0, RowID 0 1, RowID 0 2]"
proof -
  have o: "join_positions Outer Equals (0, 0) left_rows right_rows
     = Inr ([RowID 0 0, RowID 0 1, RowID 0 0, RowID 0 1, RowID 0 2, NULL_ROW_ID],
            [RowID 0 0, RowID 0 0, RowID 1 0, RowID 1 0, NULL_ROW_ID, RowID 0 1])"
    by code_simp
  have l: "join_positions Left Equals (0, 0) left_rows right_rows
     = Inr ([RowID 0 0, RowID 0 1, RowID 0 0, RowID 0 1, RowID 0 2],
            [RowID 0 0, RowID 0 0, RowID 1 0, RowID 1 0, NULL_ROW_ID])"
    by code_simp
  show ?thesis
    using join_output_order[OF o] join_output_order[OF l] o l by simp
qed

text \<open>
  C4, as stated, fails: the loop over the right chunks is outside the loop over the
  left offsets, so in the inner join of \<open>left_rows\<close> and \<open>right_rows\<close> the row of the left
  offset 1 and the right chunk 0 comes before the row of the left offset 0 and the
  right chunk 1, against the order of (left chunk, left offset, right chunk, right
  offset).
\<close>

theorem matched_rows_not_ordered_by_left_row:
  "join_positions Inner Equals (0, 0) left_rows right_rows
     = Inr ([RowID 0 0, RowID 0 1, RowID 0 0, RowID 0 1],
            [RowID 0 0, RowID 0 0, RowID 1 0, RowID 1 0])
   \<and> \<not> sorted_wrt follows_by_left_row
        (zip [RowID 0 0, RowID 0 1, RowID 0 0, RowID 0 1]
             [RowID 0 0, RowID 0 0, RowID 1 0, RowID 1 0])
   \<and> \<not> follows_by_left_row (RowID 0 1, RowID 0 0) (RowID 0 0, RowID 1 0)"
proof -
  have i: "join_positions Inner Equals (0, 0) left_rows right_rows
     = Inr ([RowID 0 0, RowID 0 1, RowID 0 0, RowID 0 1],
            [RowID 0 0, RowID 0 0, RowID 1 0, RowID 1 0])"
    by code_simp
  show ?thesis using i by (simp add: lexicographic_def)
qed

text \<open>
  C5: the body of the loop over the left chunks, for the left chunk \<open>cl\<close>, first runs the
  loop over all right chunks, which appends the pairs \<open>M\<close>, and then appends
  \<open>(RowID cl offset, NULL_ROW_ID)\<close> for every offset of the left segment that is the left row
  of no pair of \<open>M\<close>, in the modes \<open>Left\<close>, \<open>Outer\<close> and \<open>Right\<close>, and nothing in the
  other modes; and the join in the mode \<open>Right\<close> is the join in the mode \<open>Left\<close> of the
  swapped inputs with the flipped predicate condition, so that its left chunks are the
  chunks of the right input.
\<close>

theorem unmatched_left_rows:
  "(join_left_chunk m pc lcol rcol right_table s (cl, c) = Inr s' \<longrightarrow>
     (\<exists>segment_left s1 lm M.
         get_segment c lcol = Inr segment_left
       \<and> fold_error (join_right_chunk m pc rcol segment_left cl)
            (enumerate 0 (chunks right_table))
            (s, if is_outer_join m then replicate (segment_size segment_left) False else [])
           = Inr (s1, lm)
       \<and> state_pos_list_left s1 = state_pos_list_left s @ map fst M
       \<and> state_pos_list_right s1 = state_pos_list_right s @ map snd M
       \<and> (\<forall>q\<in>set M. \<exists>lo cr ro. q = (RowID cl lo, RowID cr ro))
       \<and> state_pos_list_left s' = state_pos_list_left s1 @
            (if m = Left \<or> m = Outer \<or> m = Right
             then map (RowID cl) (filter (\<lambda>offset. RowID cl offset \<notin> fst ` set M)
                    [0..<segment_size segment_left])
             else [])
       \<and> state_pos_list_right s' = state_pos_list_right s1 @
            (if m = Left \<or> m = Outer \<or> m = Right
             then map (\<lambda>offset. NULL_ROW_ID)
                    (filter (\<lambda>offset. RowID cl offset \<notin> fst ` set M)
                       [0..<segment_size segment_left])
             else [])))
   \<and> join_positions Right pc (lcol, rcol) input_table_left input_table_right
       = join_positions Left (flip_predicate_condition pc) (rcol, lcol)
           input_table_right input_table_left"
proof (intro conjI impI)
  assume a: "join_left_chunk m pc lcol rcol right_table s (cl, c) = Inr s'"
  have o: "(m = Left \<or> m = Outer \<or> m = Right) = is_outer_join m"
    by (auto simp: is_outer_join_def)
  from join_left_chunk_parts[OF a] show "\<exists>segment_left s1 lm M.
         get_segment c lcol = Inr segment_left
       \<and> fold_error (join_right_chunk m pc rcol segment_left cl)
            (enumerate 0 (chunks right_table))
            (s, if is_outer_join m then replicate (segment_size segment_left) False else [])
           = Inr (s1, lm)
       \<and> state_pos_list_left s1 = state_pos_list_left s @ map fst M
       \<and> state_pos_list_right s1 = state_pos_list_right s @ map snd M
       \<and> (\<forall>q\<in>set M. \<exists>lo cr ro. q = (RowID cl lo, RowID cr ro))
       \<and> state_pos_list_left s' = state_pos_list_left s1 @
            (if m = Left \<or> m = Outer \<or> m = Right
             then map (RowID cl) (filter (\<lambda>offset. RowID cl offset \<notin> fst ` set M)
                    [0..<segment_size segment_left])
             else [])
       \<and> state_pos_list_right s' = state_pos_list_right s1 @
            (if m = Left \<or> m = Outer \<or> m = Right
             then map (\<lambda>offset. NULL_ROW_ID)
                    (filter (\<lambda>offset. RowID cl offset \<notin> fst ` set M)
                       [0..<segment_size segment_left])
             else [])"
    unfolding o
    apply (elim exE conjE)
    subgoal for sl s1 lm M
      by (intro exI[of _ sl] exI[of _ s1] exI[of _ lm] exI[of _ M] conjI) assumption+
    done
next
  show "join_positions Right pc (lcol, rcol) input_table_left input_table_right
       = join_positions Left (flip_predicate_condition pc) (rcol, lcol)
           input_table_right input_table_left"
    by (rule join_positions_Right)
qed


text \<open>
  The left join of the chunk of \<open>left_rows\<close> with \<open>right_rows\<close>, whose row 2 has no match,
  and the right join of the two tables.
\<close>

theorem unmatched_left_rows_witness:
  "join_left_chunk Left Equals 0 0 right_rows
      \<lparr>state_pos_list_left = [], state_pos_list_right = [], state_right_matches = [[], []]\<rparr>
      (0, Chunk [ValueSegment Int' False [Some 1, Some 1, Some 2]] None)
     = Inr \<lparr>state_pos_list_left = [RowID 0 0, RowID 0 1, RowID 0 0, RowID 0 1, RowID 0 2],
            state_pos_list_right = [RowID 0 0, RowID 0 0, RowID 1 0, RowID 1 0, NULL_ROW_ID],
            state_right_matches = [[False, False], [False]]\<rparr>
   \<and> (\<exists>segment_left s1 lm M.
         get_segment (Chunk [ValueSegment Int' False [Some 1, Some 1, Some 2]] None) 0
           = Inr segment_left
       \<and> fold_error (join_right_chunk Left Equals 0 segment_left 0)
            (enumerate 0 (chunks right_rows))
            (\<lparr>state_pos_list_left = [], state_pos_list_right = [],
              state_right_matches = [[], []]\<rparr>,
             replicate (segment_size segment_left) False)
           = Inr (s1, lm)
       \<and> state_pos_list_left s1 = map fst M
       \<and> state_pos_list_right s1 = map snd M
       \<and> [RowID 0 0, RowID 0 1, RowID 0 0, RowID 0 1, RowID 0 2]
           = state_pos_list_left s1 @
             map (RowID 0) (filter (\<lambda>offset. RowID 0 offset \<notin> fst ` set M)
                    [0..<segment_size segment_left])
       \<and> [RowID 0 0, RowID 0 0, RowID 1 0, RowID 1 0, NULL_ROW_ID]
           = state_pos_list_right s1 @
             map (\<lambda>offset. NULL_ROW_ID)
               (filter (\<lambda>offset. RowID 0 offset \<notin> fst ` set M)
                  [0..<segment_size segment_left]))
   \<and> join_positions Right Equals (0, 0) left_rows right_rows
       = join_positions Left Equals (0, 0) right_rows left_rows
   \<and> join_positions Right Equals (0, 0) left_rows right_rows
       = Inr ([RowID 0 0, RowID 0 0, RowID 0 1, RowID 1 0, RowID 1 0],
              [RowID 0 0, RowID 0 1, NULL_ROW_ID, RowID 0 0, RowID 0 1])"
proof -
  let ?s = "\<lparr>state_pos_list_left = [], state_pos_list_right = [],
             state_right_matches = [[], []]\<rparr>"
  let ?c = "Chunk [ValueSegment Int' False [Some (1::int), Some 1, Some 2]] None"
  let ?s' = "\<lparr>state_pos_list_left = [RowID 0 0, RowID 0 1, RowID 0 0, RowID 0 1, RowID 0 2],
            state_pos_list_right = [RowID 0 0, RowID 0 0, RowID 1 0, RowID 1 0, NULL_ROW_ID],
            state_right_matches = [[False, False], [False]]\<rparr>"
  have j: "join_left_chunk Left Equals 0 0 right_rows ?s (0, ?c) = Inr ?s'"
    by code_simp
  have r: "join_positions Right Equals (0, 0) left_rows right_rows
       = Inr ([RowID 0 0, RowID 0 0, RowID 0 1, RowID 1 0, RowID 1 0],
              [RowID 0 0, RowID 0 1, NULL_ROW_ID, RowID 0 0, RowID 0 1])"
    by code_simp
  note u = unmatched_left_rows[of Left Equals 0 0 right_rows ?s 0 ?c ?s' left_rows right_rows]
  from u j have "\<exists>segment_left s1 lm M.
         get_segment ?c 0 = Inr segment_left
       \<and> fold_error (join_right_chunk Left Equals 0 segment_left 0)
            (enumerate 0 (chunks right_rows))
            (?s, replicate (segment_size segment_left) False)
           = Inr (s1, lm)
       \<and> state_pos_list_left s1 = map fst M
       \<and> state_pos_list_right s1 = map snd M
       \<and> [RowID 0 0, RowID 0 1, RowID 0 0, RowID 0 1, RowID 0 2]
           = state_pos_list_left s1 @
             map (RowID 0) (filter (\<lambda>offset. RowID 0 offset \<notin> fst ` set M)
                    [0..<segment_size segment_left])
       \<and> [RowID 0 0, RowID 0 0, RowID 1 0, RowID 1 0, NULL_ROW_ID]
           = state_pos_list_right s1 @
             map (\<lambda>offset. NULL_ROW_ID)
               (filter (\<lambda>offset. RowID 0 offset \<notin> fst ` set M)
                  [0..<segment_size segment_left])"
    apply (simp only: simp_thms if_True is_outer_join_def JoinMode.simps join_state.simps
        append_Nil flip_predicate_condition.simps)
    apply (elim exE conjE)
    subgoal for sl s1 lm M
      by (intro exI[of _ sl] exI[of _ s1] exI[of _ lm] exI[of _ M] conjI)
         (simp_all only: simp_thms)
    done
  moreover have "join_positions Right Equals (0, 0) left_rows right_rows
       = join_positions Left Equals (0, 0) right_rows left_rows"
    using u by simp
  ultimately show ?thesis using j r by (simp only: simp_thms)
qed


subsection \<open>The output segments\<close>

lemma fold_error_push_back:
  "fold_error (\<lambda>segs x. case g x of Inl e \<Rightarrow> Inl e | Inr y \<Rightarrow> Inr (segs @ [y])) xs segs
     = Inr segs'
   \<Longrightarrow> \<exists>ys. segs' = segs @ ys \<and> length ys = length xs
         \<and> (\<forall>i<length xs. g (xs ! i) = Inr (ys ! i))"
proof (induction xs arbitrary: segs)
  case Nil
  then show ?case by simp
next
  case (Cons x xs)
  from Cons.prems obtain y where y: "g x = Inr y"
    and rest: "fold_error (\<lambda>segs x. case g x of Inl e \<Rightarrow> Inl e | Inr y \<Rightarrow> Inr (segs @ [y]))
                 xs (segs @ [y]) = Inr segs'"
    by (auto split: sum.splits)
  from Cons.IH[OF rest] obtain ys where ys: "segs' = (segs @ [y]) @ ys" "length ys = length xs"
    "\<forall>i<length xs. g (xs ! i) = Inr (ys ! i)"
    by blast
  show ?case using y ys
    by (intro exI[of _ "y # ys"]) (auto simp: nth_Cons split: nat.splits)
qed

lemma write_output_chunks_segments:
  assumes "write_output_chunks default_max_chunk_size default_use_mvcc segs input_table pl
             = Inr segs'"
  shows "length segs' = length segs + length (column_definitions input_table)
     \<and> take (length segs) segs' = segs
     \<and> (\<forall>column_id<length (column_definitions input_table).
          output_segment default_max_chunk_size default_use_mvcc input_table pl column_id
            = Inr (segs' ! (length segs + column_id)))"
proof -
  from fold_error_push_back[OF assms[unfolded write_output_chunks_def]]
  obtain ys where ys: "segs' = segs @ ys"
    "length ys = length [0..<length (column_definitions input_table)]"
    "\<forall>i<length [0..<length (column_definitions input_table)].
       output_segment default_max_chunk_size default_use_mvcc input_table pl
         ([0..<length (column_definitions input_table)] ! i) = Inr (ys ! i)"
    by blast
  then show ?thesis by simp
qed

lemma dereference_row_Inr:
  assumes "dereference_row input_table column_id row = Inr row'"
  shows "case row of
           NULL_ROW_ID \<Rightarrow> row' = NULL_ROW_ID
         | RowID c offset \<Rightarrow>
             c < length (chunks input_table)
             \<and> (\<exists>t rc pl. get_segment (chunks input_table ! c) column_id
                             = Inr (ReferenceSegment t rc pl)
                   \<and> offset < length pl \<and> row' = pl ! offset)"
  using assms
  by (auto simp: dereference_row_def split: RowID.splits if_splits sum.splits segment.splits)

text \<open>
  C8: for an input table of the type \<open>References\<close>, \<open>_write_output_chunks\<close> adds one
  segment for every column. If the input has a chunk, the segment of a column refers to
  the table and the column that the segment of this column in the first chunk of the
  input refers to, and its position list has, for every entry of the position list of
  the join, \<open>NULL_ROW_ID\<close> if the entry is \<open>NULL_ROW_ID\<close>, and else the entry at its offset
  in the position list of the reference segment of its chunk. If the input has no
  chunk, the segment refers to a new table of the type \<open>Data\<close> with the column
  definitions of the input and no chunk, with the position list of the join.
\<close>

theorem reference_input_output_segments:
  assumes "table_type input_table = References"
    and "write_output_chunks default_max_chunk_size default_use_mvcc segs input_table pl
           = Inr segs'"
    and "column_id < length (column_definitions input_table)"
  shows "length segs' = length segs + length (column_definitions input_table)
     \<and> (if 0 < length (chunks input_table)
        then \<exists>t rc first_pos_list new_pos_list.
               get_segment (chunks input_table ! 0) column_id
                 = Inr (ReferenceSegment t rc first_pos_list)
             \<and> segs' ! (length segs + column_id) = ReferenceSegment t rc new_pos_list
             \<and> length new_pos_list = length pl
             \<and> (\<forall>i<length pl.
                  case pl ! i of
                    NULL_ROW_ID \<Rightarrow> new_pos_list ! i = NULL_ROW_ID
                  | RowID c offset \<Rightarrow>
                      c < length (chunks input_table)
                      \<and> (\<exists>t' rc' pl'. get_segment (chunks input_table ! c) column_id
                                        = Inr (ReferenceSegment t' rc' pl')
                            \<and> offset < length pl' \<and> new_pos_list ! i = pl' ! offset))
        else segs' ! (length segs + column_id)
               = ReferenceSegment
                   (Table (column_definitions input_table) Data default_max_chunk_size
                      default_use_mvcc [])
                   column_id pl)"
proof -
  from write_output_chunks_segments[OF assms(2)] assms(3)
  have len: "length segs' = length segs + length (column_definitions input_table)"
    and out: "output_segment default_max_chunk_size default_use_mvcc input_table pl column_id
            = Inr (segs' ! (length segs + column_id))"
    by simp_all
  show ?thesis
  proof (cases "0 < length (chunks input_table)")
    case True
    from out assms(1) True obtain new_pos_list t rc first_pos_list where
      s: "sequence (map (dereference_row input_table column_id) pl) = Inr new_pos_list"
      and g: "get_segment (chunks input_table ! 0) column_id
                = Inr (ReferenceSegment t rc first_pos_list)"
      and r: "segs' ! (length segs + column_id) = ReferenceSegment t rc new_pos_list"
      by (auto simp: output_segment_def split: sum.splits segment.splits)
    from sequence_map_Inr[OF s] have l: "length new_pos_list = length pl"
      and d: "\<forall>i<length pl. dereference_row input_table column_id (pl ! i)
                = Inr (new_pos_list ! i)"
      by simp_all
    have "\<forall>i<length pl.
            case pl ! i of
              NULL_ROW_ID \<Rightarrow> new_pos_list ! i = NULL_ROW_ID
            | RowID c offset \<Rightarrow>
                c < length (chunks input_table)
                \<and> (\<exists>t' rc' pl'. get_segment (chunks input_table ! c) column_id
                                  = Inr (ReferenceSegment t' rc' pl')
                      \<and> offset < length pl' \<and> new_pos_list ! i = pl' ! offset)"
      using d dereference_row_Inr by blast
    then show ?thesis using True len g r l by auto
  next
    case False
    then show ?thesis using out assms(1) len
      by (auto simp: output_segment_def create_dummy_table_def construct_table_def
          split: sum.splits if_splits)
  qed
qed

text \<open>
  The output segments for \<open>referencing_rows\<close> and for \<open>referencing_nothing\<close>.
\<close>

theorem reference_input_output_segments_witness:
  "table_type referencing_rows = References
   \<and> write_output_chunks 3 No [] referencing_rows [RowID 0 1, NULL_ROW_ID, RowID 0 0]
       = Inr [ReferenceSegment left_rows 0 [RowID 0 0, NULL_ROW_ID, RowID 0 2]]
   \<and> get_segment (chunks referencing_rows ! 0) 0
       = Inr (ReferenceSegment left_rows 0 [RowID 0 2, RowID 0 0])
   \<and> table_type referencing_nothing = References
   \<and> write_output_chunks 3 No [] referencing_nothing [NULL_ROW_ID]
       = Inr [ReferenceSegment (Table [int_column] Data 3 No []) 0 [NULL_ROW_ID]]
   \<and> [ReferenceSegment (Table [int_column] Data 3 No []) 0 [NULL_ROW_ID]] ! (length [] + 0)
       = ReferenceSegment
           (Table (column_definitions referencing_nothing) Data 3 No []) 0 [NULL_ROW_ID]"
proof -
  have r: "table_type referencing_rows = References"
    "table_type referencing_nothing = References"
    "0 < length (column_definitions referencing_rows)"
    "0 < length (column_definitions referencing_nothing)"
    "\<not> 0 < length (chunks referencing_nothing)"
    by (simp_all add: referencing_rows_def referencing_nothing_def)
  have w: "write_output_chunks 3 No [] referencing_rows [RowID 0 1, NULL_ROW_ID, RowID 0 0]
       = Inr [ReferenceSegment left_rows 0 [RowID 0 0, NULL_ROW_ID, RowID 0 2]]"
    by code_simp
  have g: "get_segment (chunks referencing_rows ! 0) 0
       = Inr (ReferenceSegment left_rows 0 [RowID 0 2, RowID 0 0])"
    by (simp add: referencing_rows_def get_segment_def)
  have n: "write_output_chunks 3 No [] referencing_nothing [NULL_ROW_ID]
       = Inr [ReferenceSegment (Table [int_column] Data 3 No []) 0 [NULL_ROW_ID]]"
    by code_simp
  show ?thesis
    using reference_input_output_segments[OF r(2) n r(4)]
      reference_input_output_segments[OF r(1) w r(3)] r w g n
    by simp
qed

end
